theory Spec2Isabelle
  imports Main "HOL-Library.Char_ord" "HOL-Library.List_Lexorder" "HOL-Library.AList"
begin

section \<open>Strings\<close>

text \<open>
  A Python \<open>str\<close> is modelled as a \<open>string\<close> whose characters are the code points
  0 to 255.  \<open>isspace\<close> lists the code points below 256 that Python's \<open>str.strip()\<close>
  removes; \<open>strip\<close> is \<open>str.strip()\<close> without arguments.
\<close>

definition isspace :: "char \<Rightarrow> bool" where
  "isspace c \<longleftrightarrow>
     c \<in> set [CHR 0x09, CHR 0x0A, CHR 0x0B, CHR 0x0C, CHR 0x0D, CHR 0x1C, CHR 0x1D,
              CHR 0x1E, CHR 0x1F, CHR 0x20, CHR 0x85, CHR 0xA0]"

definition strip :: "string \<Rightarrow> string" where
  "strip s = rev (dropWhile isspace (rev (dropWhile isspace s)))"

text \<open>
  \<open>upper\<close> is \<open>str.upper()\<close> on the ASCII letters.  A character outside ASCII is left as
  it is here; Python maps it to a non-ASCII character or to \<open>SS\<close>, never to a single ASCII
  letter, so every comparison of an upper-cased string with a one-letter ASCII code below has
  the same outcome.
\<close>

definition upper_char :: "char \<Rightarrow> char" where
  "upper_char c =
     (case map_of (zip ''abcdefghijklmnopqrstuvwxyz'' ''ABCDEFGHIJKLMNOPQRSTUVWXYZ'') c of
        Some u \<Rightarrow> u
      | None \<Rightarrow> c)"

definition upper :: "string \<Rightarrow> string" where
  "upper s = map upper_char s"

section \<open>Exceptions\<close>

text \<open>
  The exception classes of \<open>src/parser/exceptions.py\<close> and the built-in \<open>ValueError\<close>,
  which carries its message.  The messages of the parser's exceptions are not modelled.
\<close>

datatype error =
    DelimiterDetectionError
  | InvalidISASegmentError
  | TokenizationError
  | FileSizeExceededError
  | EmptyFileError
  | MissingSegmentError
  | ValueError string

section \<open>Status classification (\<open>src/validation/validator.py\<close>)\<close>

datatype TransactionStatus = ACCEPTED | PARTIALLY_ACCEPTED | REJECTED | UNKNOWN

datatype FunctionalGroupStatus = ACCEPTED | PARTIALLY_ACCEPTED | REJECTED | UNKNOWN

text \<open>The warning that both functions log for an unknown code is not part of the result.\<close>

definition classify_transaction_status :: "string \<Rightarrow> TransactionStatus" where
  "classify_transaction_status ack_code =
     (let ack_code = upper ack_code in
      if ack_code = ''A'' then TransactionStatus.ACCEPTED
      else if ack_code \<in> set [''E'', ''P''] then TransactionStatus.PARTIALLY_ACCEPTED
      else if ack_code \<in> set [''R'', ''M'', ''W'', ''X''] then TransactionStatus.REJECTED
      else TransactionStatus.UNKNOWN)"

definition classify_functional_group_status :: "string \<Rightarrow> FunctionalGroupStatus" where
  "classify_functional_group_status ack_code =
     (let ack_code = upper ack_code in
      if ack_code = ''A'' then FunctionalGroupStatus.ACCEPTED
      else if ack_code \<in> set [''E'', ''P''] then FunctionalGroupStatus.PARTIALLY_ACCEPTED
      else if ack_code = ''R'' then FunctionalGroupStatus.REJECTED
      else FunctionalGroupStatus.UNKNOWN)"

section \<open>Facts about strings\<close>

lemma upper_single: "upper s = [u] \<longleftrightarrow> (\<exists>c. s = [c] \<and> upper_char c = u)"
  by (cases s) (auto simp: upper_def)

lemma upper_char_A: "upper_char c = CHR ''A'' \<longleftrightarrow> c = CHR ''a'' \<or> c = CHR ''A''"
  by (auto simp: upper_char_def)

lemma upper_char_E: "upper_char c = CHR ''E'' \<longleftrightarrow> c = CHR ''e'' \<or> c = CHR ''E''"
  by (auto simp: upper_char_def)

lemma upper_char_P: "upper_char c = CHR ''P'' \<longleftrightarrow> c = CHR ''p'' \<or> c = CHR ''P''"
  by (auto simp: upper_char_def)

lemma upper_char_R: "upper_char c = CHR ''R'' \<longleftrightarrow> c = CHR ''r'' \<or> c = CHR ''R''"
  by (auto simp: upper_char_def)

lemma upper_char_M: "upper_char c = CHR ''M'' \<longleftrightarrow> c = CHR ''m'' \<or> c = CHR ''M''"
  by (auto simp: upper_char_def)

lemma upper_char_W: "upper_char c = CHR ''W'' \<longleftrightarrow> c = CHR ''w'' \<or> c = CHR ''W''"
  by (auto simp: upper_char_def)

lemma upper_char_X: "upper_char c = CHR ''X'' \<longleftrightarrow> c = CHR ''x'' \<or> c = CHR ''X''"
  by (auto simp: upper_char_def)

lemma upper_code_A: "upper s = ''A'' \<longleftrightarrow> s = ''a'' \<or> s = ''A''"
  by (auto simp: upper_single upper_char_A)

lemma upper_code_E: "upper s = ''E'' \<longleftrightarrow> s = ''e'' \<or> s = ''E''"
  by (auto simp: upper_single upper_char_E)

lemma upper_code_P: "upper s = ''P'' \<longleftrightarrow> s = ''p'' \<or> s = ''P''"
  by (auto simp: upper_single upper_char_P)

lemma upper_code_R: "upper s = ''R'' \<longleftrightarrow> s = ''r'' \<or> s = ''R''"
  by (auto simp: upper_single upper_char_R)

lemma upper_code_M: "upper s = ''M'' \<longleftrightarrow> s = ''m'' \<or> s = ''M''"
  by (auto simp: upper_single upper_char_M)

lemma upper_code_W: "upper s = ''W'' \<longleftrightarrow> s = ''w'' \<or> s = ''W''"
  by (auto simp: upper_single upper_char_W)

lemma upper_code_X: "upper s = ''X'' \<longleftrightarrow> s = ''x'' \<or> s = ''X''"
  by (auto simp: upper_single upper_char_X)

lemmas upper_codes =
  upper_code_A upper_code_E upper_code_P upper_code_R upper_code_M upper_code_W upper_code_X

section \<open>Status classification: results\<close>

lemma classify_transaction_status_table:
  "classify_transaction_status c =
     (if c \<in> {''A'', ''a''} then TransactionStatus.ACCEPTED
      else if c \<in> {''E'', ''e'', ''P'', ''p''} then TransactionStatus.PARTIALLY_ACCEPTED
      else if c \<in> {''R'', ''r'', ''M'', ''m'', ''W'', ''w'', ''X'', ''x''}
        then TransactionStatus.REJECTED
      else TransactionStatus.UNKNOWN)"
  unfolding classify_transaction_status_def Let_def
  by (simp add: upper_codes)

lemma classify_functional_group_status_table:
  "classify_functional_group_status c =
     (if c \<in> {''A'', ''a''} then FunctionalGroupStatus.ACCEPTED
      else if c \<in> {''E'', ''e'', ''P'', ''p''} then FunctionalGroupStatus.PARTIALLY_ACCEPTED
      else if c \<in> {''R'', ''r''} then FunctionalGroupStatus.REJECTED
      else FunctionalGroupStatus.UNKNOWN)"
  unfolding classify_functional_group_status_def Let_def
  by (simp add: upper_codes)

text \<open>
  Claim C3, as the code has it.  Both classifications are functions of the code alone and
  ignore its case.  \<open>A\<close> gives ACCEPTED, \<open>E\<close> and \<open>P\<close> give PARTIALLY_ACCEPTED and every
  code outside the seven letters gives UNKNOWN, at both levels.  At transaction level \<open>R\<close>,
  \<open>M\<close>, \<open>W\<close> and \<open>X\<close> give REJECTED; at group level only \<open>R\<close> gives REJECTED, and
  \<open>M\<close>, \<open>W\<close> and \<open>X\<close> give UNKNOWN.
\<close>

theorem classify_status_mapping:
  "classify_transaction_status c =
     (if c \<in> {''A'', ''a''} then TransactionStatus.ACCEPTED
      else if c \<in> {''E'', ''e'', ''P'', ''p''} then TransactionStatus.PARTIALLY_ACCEPTED
      else if c \<in> {''R'', ''r'', ''M'', ''m'', ''W'', ''w'', ''X'', ''x''}
        then TransactionStatus.REJECTED
      else TransactionStatus.UNKNOWN)
   \<and> classify_functional_group_status c =
     (if c \<in> {''A'', ''a''} then FunctionalGroupStatus.ACCEPTED
      else if c \<in> {''E'', ''e'', ''P'', ''p''} then FunctionalGroupStatus.PARTIALLY_ACCEPTED
      else if c \<in> {''R'', ''r''} then FunctionalGroupStatus.REJECTED
      else FunctionalGroupStatus.UNKNOWN)
   \<and> classify_transaction_status (upper c) = classify_transaction_status c
   \<and> classify_functional_group_status (upper c) = classify_functional_group_status c"
proof -
  have idem: "upper (upper c) = upper c"
    by (induction c) (auto simp: upper_def upper_char_def split: option.splits if_splits)
  show ?thesis
    using classify_transaction_status_table [of c] classify_functional_group_status_table [of c]
    by (simp add: classify_transaction_status_def classify_functional_group_status_def idem)
qed

theorem classify_status_mapping_witness:
  "classify_transaction_status ''m'' = TransactionStatus.REJECTED
   \<and> classify_functional_group_status ''r'' = FunctionalGroupStatus.REJECTED
   \<and> classify_functional_group_status ''p'' = FunctionalGroupStatus.PARTIALLY_ACCEPTED
   \<and> classify_transaction_status ''Z'' = TransactionStatus.UNKNOWN"
  using classify_status_mapping [of "''m''"] classify_status_mapping [of "''r''"]
    classify_status_mapping [of "''p''"] classify_status_mapping [of "''Z''"]
  by simp

text \<open>
  Claim C3, as stated, fails at group level: the codes \<open>M\<close>, \<open>W\<close> and \<open>X\<close> are classified as
  UNKNOWN by \<open>classify_functional_group_status\<close>, not as REJECTED.
\<close>

theorem classify_functional_group_status_M_counterexample:
  "classify_functional_group_status ''M'' \<noteq> FunctionalGroupStatus.REJECTED
   \<and> classify_functional_group_status ''M'' = FunctionalGroupStatus.UNKNOWN
   \<and> classify_functional_group_status ''W'' = FunctionalGroupStatus.UNKNOWN
   \<and> classify_functional_group_status ''X'' = FunctionalGroupStatus.UNKNOWN"
  by (simp add: classify_functional_group_status_def upper_def upper_char_def)


section \<open>String operations of the parser\<close>

definition startswith :: "string \<Rightarrow> string \<Rightarrow> bool" where
  "startswith s p \<longleftrightarrow> take (length p) s = p"

text \<open>\<open>s[i]\<close> for an index \<open>i \<ge> 0\<close> and \<open>s[-1]\<close>; \<open>None\<close> stands for \<open>IndexError\<close>.\<close>

definition char_at :: "string \<Rightarrow> nat \<Rightarrow> char option" where
  "char_at s i = (if i < length s then Some (s ! i) else None)"

definition last_char :: "string \<Rightarrow> char option" where
  "last_char s = (if s = [] then None else Some (last s))"

text \<open>
  \<open>split_from sep acc s\<close> scans \<open>s\<close> from the left and cuts at every occurrence of \<open>sep\<close>
  that does not overlap the one before it; \<open>acc\<close> holds the current piece, reversed.
  \<open>split sep s\<close> is \<open>s.split(sep)\<close> for a non-empty \<open>sep\<close>; Python raises \<open>ValueError\<close> for
  an empty one, which the callers below handle before they call \<open>split\<close>.
\<close>

function split_from :: "string \<Rightarrow> string \<Rightarrow> string \<Rightarrow> string list" where
  "split_from sep acc [] = [rev acc]"
| "split_from sep acc (c # cs) =
     (if sep \<noteq> [] \<and> take (length sep) (c # cs) = sep
      then rev acc # split_from sep [] (drop (length sep) (c # cs))
      else split_from sep (c # acc) cs)"
  by pat_completeness auto
termination
  by (relation "measure (\<lambda>(sep, acc, s). length s)") (auto simp: neq_Nil_conv)

definition split :: "string \<Rightarrow> string \<Rightarrow> string list" where
  "split sep s = split_from sep [] s"

text \<open>\<open>replace old new s\<close> is \<open>s.replace(old, new)\<close> for a non-empty \<open>old\<close>.\<close>

function replace :: "string \<Rightarrow> string \<Rightarrow> string \<Rightarrow> string" where
  "replace old new [] = []"
| "replace old new (c # cs) =
     (if old \<noteq> [] \<and> take (length old) (c # cs) = old
      then new @ replace old new (drop (length old) (c # cs))
      else c # replace old new cs)"
  by pat_completeness auto
termination
  by (relation "measure (\<lambda>(old, new, s). length s)") (auto simp: neq_Nil_conv)

section \<open>Delimiter detection (\<open>src/parser/delimiter_detector.py\<close>)\<close>

text \<open>
  \<open>DelimitersConfig\<close> (\<open>src/models/config_schemas.py\<close>) constrains each of its four string
  fields to exactly one character, so they are characters here.  The class \<open>Delimiters\<close>
  holds strings and checks nothing.
\<close>

record DelimitersConfig =
  element :: char
  segment :: char
  sub_element :: char
  repetition :: char

definition DelimitersConfig_default :: DelimitersConfig where
  "DelimitersConfig_default =
     \<lparr>DelimitersConfig.element = CHR ''*'', segment = CHR ''~'', sub_element = CHR '':'',
      repetition = CHR ''^''\<rparr>"

record Delimiters =
  element :: string
  segment :: string
  sub_element :: string
  repetition :: "string option"

definition from_config :: "DelimitersConfig \<Rightarrow> Delimiters" where
  "from_config cfg =
     \<lparr>Delimiters.element = [DelimitersConfig.element cfg],
      segment = [DelimitersConfig.segment cfg],
      sub_element = [DelimitersConfig.sub_element cfg],
      repetition = Some [DelimitersConfig.repetition cfg]\<rparr>"

record DelimiterDetector =
  default_delimiters :: DelimitersConfig

definition DelimiterDetector_init :: "DelimitersConfig option \<Rightarrow> DelimiterDetector" where
  "DelimiterDetector_init dflt =
     \<lparr>DelimiterDetector.default_delimiters = (case dflt of Some cfg \<Rightarrow> cfg | None \<Rightarrow> DelimitersConfig_default)\<rparr>"

definition ISA_PREFIX :: string where
  "ISA_PREFIX = ''ISA''"

definition ISA_MIN_LENGTH :: nat where
  "ISA_MIN_LENGTH = 106"

definition ELEMENT_SEPARATOR_POSITION :: nat where
  "ELEMENT_SEPARATOR_POSITION = 3"

definition SUB_ELEMENT_SEPARATOR_POSITION :: nat where
  "SUB_ELEMENT_SEPARATOR_POSITION = 104"

text \<open>
  The three reads are inside \<open>try\<close>: an \<open>IndexError\<close> becomes a \<open>DelimiterDetectionError\<close>,
  as does a repeated separator.
\<close>

definition detect_from_isa :: "string \<Rightarrow> error + Delimiters" where
  "detect_from_isa isa_segment =
     (if isa_segment = [] then Inl InvalidISASegmentError
      else
        let isa_segment = strip isa_segment in
        if \<not> startswith isa_segment ISA_PREFIX then Inl InvalidISASegmentError
        else if length isa_segment < ISA_MIN_LENGTH then Inl InvalidISASegmentError
        else
          (case (char_at isa_segment ELEMENT_SEPARATOR_POSITION, last_char isa_segment,
                 char_at isa_segment SUB_ELEMENT_SEPARATOR_POSITION) of
             (Some element_separator, Some segment_terminator, Some sub_element_separator) \<Rightarrow>
               let separators = [element_separator, segment_terminator, sub_element_separator]
               in if card (set separators) \<noteq> length separators
                  then Inl DelimiterDetectionError
                  else Inr \<lparr>Delimiters.element = [element_separator],
                            segment = [segment_terminator],
                            sub_element = [sub_element_separator],
                            repetition = None\<rparr>
           | _ \<Rightarrow> Inl DelimiterDetectionError))"

text \<open>\<open>content.split(sep)[0]\<close>; \<open>split\<close> never returns the empty list.\<close>

definition first_piece :: "string \<Rightarrow> string \<Rightarrow> string" where
  "first_piece sep content = (case split sep content of piece # _ \<Rightarrow> piece | [] \<Rightarrow> [])"

definition detect_from_file_content :: "string \<Rightarrow> error + Delimiters" where
  "detect_from_file_content content =
     (if content = [] then Inl InvalidISASegmentError
      else
        let content = strip content in
        if \<not> startswith content ISA_PREFIX then Inl InvalidISASegmentError
        else
          let common_terminators = [CHR ''~'', CHR ''!'', CHR ''|''];
              isa_segment =
                (case find (\<lambda>terminator. terminator \<in> set content) common_terminators of
                   Some terminator \<Rightarrow> first_piece [terminator] content @ [terminator]
                 | None \<Rightarrow> []);
              isa_segment =
                (if isa_segment = []
                 then if CHR 0x0A \<in> set content then first_piece [CHR 0x0A] content
                      else take (ISA_MIN_LENGTH + 10) content
                 else isa_segment)
          in detect_from_isa isa_segment)"

definition use_default_delimiters :: "DelimiterDetector \<Rightarrow> Delimiters" where
  "use_default_delimiters self = from_config (DelimiterDetector.default_delimiters self)"

section \<open>Tokenizer (\<open>src/parser/tokenizer.py\<close>)\<close>

record ParserConfig =
  auto_detect_delimiters :: bool
  default_delimiters :: DelimitersConfig
  trim_whitespace :: bool
  preserve_line_breaks :: bool
  max_file_size_mb :: int

definition ParserConfig_default :: ParserConfig where
  "ParserConfig_default =
     \<lparr>auto_detect_delimiters = True,
      ParserConfig.default_delimiters = DelimitersConfig_default,
      trim_whitespace = True,
      preserve_line_breaks = False,
      max_file_size_mb = 10\<rparr>"

record EDITokenizer =
  config :: ParserConfig
  delimiter_detector :: DelimiterDetector

definition EDITokenizer_init :: "ParserConfig option \<Rightarrow> DelimiterDetector option \<Rightarrow> EDITokenizer" where
  "EDITokenizer_init cfg detector =
     (let cfg = (case cfg of Some c \<Rightarrow> c | None \<Rightarrow> ParserConfig_default)
      in \<lparr>config = cfg,
          delimiter_detector =
            (case detector of
               Some d \<Rightarrow> d
             | None \<Rightarrow> DelimiterDetector_init (Some (ParserConfig.default_delimiters cfg)))\<rparr>)"

text \<open>The loop that trims the pieces and skips the empty ones.\<close>

fun clean_segments :: "bool \<Rightarrow> string list \<Rightarrow> string list" where
  "clean_segments trim [] = []"
| "clean_segments trim (seg # segs) =
     (let seg = (if trim then strip seg else seg)
      in if seg = [] then clean_segments trim segs else seg # clean_segments trim segs)"

text \<open>
  \<open>except Exception\<close> around the detection catches each of its errors.  \<open>str.split\<close> raises
  \<open>ValueError\<close> for an empty separator.
\<close>

definition tokenize_content :: "EDITokenizer \<Rightarrow> string \<Rightarrow> Delimiters option \<Rightarrow> error + string list" where
  "tokenize_content self content delimiters =
     (if content = [] \<or> strip content = [] then Inl EmptyFileError
      else
        let delimiters =
              (case delimiters of
                 Some d \<Rightarrow> d
               | None \<Rightarrow>
                   if auto_detect_delimiters (config self)
                   then (case detect_from_file_content content of
                           Inr d \<Rightarrow> d
                         | Inl e \<Rightarrow> use_default_delimiters (delimiter_detector self))
                   else use_default_delimiters (delimiter_detector self));
            content =
              (if \<not> preserve_line_breaks (config self)
               then replace [CHR 0x0D] [] (replace [CHR 0x0A] [] (replace [CHR 0x0D, CHR 0x0A] [] content))
               else content)
        in if Delimiters.segment delimiters = [] then Inl (ValueError ''empty separator'')
           else Inr (clean_segments (trim_whitespace (config self))
                       (split (Delimiters.segment delimiters) content)))"

section \<open>Parser: notions used in the statements\<close>

text \<open>The line-break characters \<open>\r\<close> and \<open>\n\<close>, and the contents that count as empty.\<close>

definition is_line_break :: "char \<Rightarrow> bool" where
  "is_line_break c \<longleftrightarrow> c = CHR 0x0D \<or> c = CHR 0x0A"

text \<open>\<open>sep in s\<close>: the string \<open>sep\<close> occurs in \<open>s\<close>.\<close>

fun occurs_in :: "string \<Rightarrow> string \<Rightarrow> bool" where
  "occurs_in sep [] \<longleftrightarrow> sep = []"
| "occurs_in sep (c # cs) \<longleftrightarrow> take (length sep) (c # cs) = sep \<or> occurs_in sep cs"

definition blank :: "string \<Rightarrow> bool" where
  "blank s \<longleftrightarrow> s = [] \<or> list_all isspace s"

text \<open>Inputs of the examples: two headers of the test fixtures and two short contents.\<close>

definition MINIMAL_ISA :: string where
  "MINIMAL_ISA =
     ''ISA*00*          *00*          *ZZ*SENDER         *ZZ*RECEIVER       *230101*1200*U*00401*000000001*0*P*>~''"

definition ISA_NON_UNIQUE :: string where
  "ISA_NON_UNIQUE =
     ''ISA*00*          *00*          *ZZ*SENDER         *ZZ*RECEIVER       *230101*1200*U*00401*000000001*0*P*~~''"

definition standard_delimiters :: Delimiters where
  "standard_delimiters =
     \<lparr>Delimiters.element = ''*'', segment = ''~'', sub_element = ''>'', repetition = None\<rparr>"

definition two_segments_crlf :: string where
  "two_segments_crlf =
     ''AK1*PO*1234~'' @ [CHR 0x0D, CHR 0x0A] @ ''AK9*A*1*1*1~'' @ [CHR 0x0A]"

definition two_segments_cr :: string where
  "two_segments_cr = ''AK1*PO*1234~'' @ [CHR 0x0D] @ ''AK9*A*1*1*1~''"

section \<open>Parser: results\<close>

lemma dropWhile_all_iff: "dropWhile P xs = [] \<longleftrightarrow> (\<forall>x\<in>set xs. P x)"
  by (induction xs) auto

lemma strip_empty_iff: "strip s = [] \<longleftrightarrow> (\<forall>c\<in>set s. isspace c)"
proof
  assume "strip s = []"
  then have all: "\<forall>c\<in>set (dropWhile isspace s). isspace c"
    by (simp add: strip_def dropWhile_all_iff)
  have "dropWhile isspace s = []"
  proof (rule ccontr)
    assume ne: "dropWhile isspace s \<noteq> []"
    then have "\<not> isspace (hd (dropWhile isspace s))"
      by (rule hd_dropWhile)
    moreover from ne have "hd (dropWhile isspace s) \<in> set (dropWhile isspace s)"
      by simp
    ultimately show False using all by blast
  qed
  then show "\<forall>c\<in>set s. isspace c"
    by (simp add: dropWhile_all_iff)
next
  assume "\<forall>c\<in>set s. isspace c"
  then have d: "dropWhile isspace s = []"
    by (simp add: dropWhile_all_iff)
  show "strip s = []"
    unfolding strip_def d by simp
qed

lemma set_strip: "set (strip s) \<subseteq> set s"
proof -
  have "set (strip s) \<subseteq> set (dropWhile isspace s)"
    unfolding strip_def using set_dropWhileD [of _ isspace "rev (dropWhile isspace s)"] by auto
  also have "\<dots> \<subseteq> set s"
    using set_dropWhileD [of _ isspace s] by auto
  finally show ?thesis .
qed

lemma take_eq_prefix: "take (length sep) s = sep \<longleftrightarrow> (\<exists>ss. s = sep @ ss)"
proof
  assume "take (length sep) s = sep"
  then have "s = sep @ drop (length sep) s"
    by (metis append_take_drop_id)
  then show "\<exists>ss. s = sep @ ss" ..
next
  assume "\<exists>ss. s = sep @ ss"
  then show "take (length sep) s = sep" by auto
qed

lemma occurs_in_iff: "occurs_in sep s \<longleftrightarrow> (\<exists>ps ss. s = ps @ sep @ ss)"
proof (induction s)
  case Nil
  then show ?case by auto
next
  case (Cons c cs)
  have "(\<exists>ps ss. c # cs = ps @ sep @ ss)
      \<longleftrightarrow> (\<exists>ss. c # cs = sep @ ss) \<or> (\<exists>ps ss. cs = ps @ sep @ ss)"
  proof
    assume "\<exists>ps ss. c # cs = ps @ sep @ ss"
    then obtain ps ss where d: "c # cs = ps @ sep @ ss" by blast
    show "(\<exists>ss. c # cs = sep @ ss) \<or> (\<exists>ps ss. cs = ps @ sep @ ss)"
    proof (cases ps)
      case Nil
      with d show ?thesis by auto
    next
      case (Cons p ps')
      with d have "cs = ps' @ sep @ ss" by simp
      then show ?thesis by blast
    qed
  next
    assume "(\<exists>ss. c # cs = sep @ ss) \<or> (\<exists>ps ss. cs = ps @ sep @ ss)"
    then show "\<exists>ps ss. c # cs = ps @ sep @ ss"
    proof
      assume "\<exists>ss. c # cs = sep @ ss"
      then obtain ss where "c # cs = [] @ sep @ ss" by auto
      then show ?thesis by blast
    next
      assume "\<exists>ps ss. cs = ps @ sep @ ss"
      then obtain ps ss where "c # cs = (c # ps) @ sep @ ss" by auto
      then show ?thesis by blast
    qed
  qed
  with Cons.IH take_eq_prefix [of sep "c # cs"] show ?case by simp
qed

lemma occurs_in_single: "occurs_in [t] s \<longleftrightarrow> t \<in> set s"
  by (induction s) auto

lemma split_from_no_sep:
  assumes "sep \<noteq> []"
    and "\<forall>ps ss. rev acc @ s = ps @ sep @ ss \<longrightarrow> length acc \<le> length ps"
    and "p \<in> set (split_from sep acc s)"
  shows "\<not> occurs_in sep p"
  using assms
proof (induction sep acc s rule: split_from.induct)
  case (1 sep acc)
  then have p: "p = rev acc" by simp
  show ?case
  proof
    assume "occurs_in sep p"
    then obtain ps ss where d: "rev acc = ps @ sep @ ss"
      unfolding p occurs_in_iff by blast
    with "1.prems"(2) have "length acc \<le> length ps" by simp
    moreover from d have "length acc = length ps + length sep + length ss"
      by (metis length_append length_rev add.assoc)
    ultimately show False using "1.prems"(1) by simp
  qed
next
  case (2 sep acc c cs)
  have not_in_acc: "\<not> occurs_in sep (rev acc)"
  proof
    assume "occurs_in sep (rev acc)"
    then obtain ps ss where d: "rev acc = ps @ sep @ ss"
      unfolding occurs_in_iff by blast
    then have "rev acc @ c # cs = ps @ sep @ (ss @ c # cs)" by simp
    with "2.prems"(2) have "length acc \<le> length ps" by blast
    moreover from d have "length acc = length ps + length sep + length ss"
      by (metis length_append length_rev add.assoc)
    ultimately show False using "2.prems"(1) by simp
  qed
  show ?case
  proof (cases "take (length sep) (c # cs) = sep")
    case True
    with "2.prems"(1,3) have "p = rev acc \<or> p \<in> set (split_from sep [] (drop (length sep) (c # cs)))"
      by simp
    then show ?thesis
    proof
      assume "p = rev acc"
      with not_in_acc show ?thesis by simp
    next
      assume "p \<in> set (split_from sep [] (drop (length sep) (c # cs)))"
      with "2.IH"(1) [of] True "2.prems"(1) show ?thesis by simp
    qed
  next
    case False
    with "2.prems"(3) have mem: "p \<in> set (split_from sep (c # acc) cs)" by simp
    have "\<forall>ps ss. rev (c # acc) @ cs = ps @ sep @ ss \<longrightarrow> length (c # acc) \<le> length ps"
    proof (intro allI impI)
      fix ps ss
      assume d: "rev (c # acc) @ cs = ps @ sep @ ss"
      then have d': "rev acc @ c # cs = ps @ sep @ ss" by simp
      with "2.prems"(2) have le: "length acc \<le> length ps" by blast
      have "length ps \<noteq> length acc"
      proof
        assume eq: "length ps = length acc"
        with d' have "ps = rev acc" "c # cs = sep @ ss"
          by (simp_all add: append_eq_append_conv)
        then have "take (length sep) (c # cs) = sep" by simp
        with False show False by simp
      qed
      with le show "length (c # acc) \<le> length ps" by simp
    qed
    with "2.IH"(2) False "2.prems"(1) mem show ?thesis by simp
  qed
qed

lemma split_no_sep: "sep \<noteq> [] \<Longrightarrow> p \<in> set (split sep s) \<Longrightarrow> \<not> occurs_in sep p"
  unfolding split_def by (rule split_from_no_sep [of sep "[]" s]) simp_all

lemma strip_part: "\<exists>a b. s = a @ strip s @ b"
proof -
  let ?q = "dropWhile isspace s"
  have "s = takeWhile isspace s @ ?q" by simp
  moreover have "rev ?q = takeWhile isspace (rev ?q) @ dropWhile isspace (rev ?q)" by simp
  then have "?q = rev (dropWhile isspace (rev ?q)) @ rev (takeWhile isspace (rev ?q))"
    by (metis rev_append rev_rev_ident)
  ultimately have "s = takeWhile isspace s @ strip s @ rev (takeWhile isspace (rev ?q))"
    unfolding strip_def by metis
  then show ?thesis by blast
qed

lemma occurs_in_strip: "occurs_in sep (strip s) \<Longrightarrow> occurs_in sep s"
proof -
  assume "occurs_in sep (strip s)"
  then obtain ps ss where d: "strip s = ps @ sep @ ss"
    unfolding occurs_in_iff by blast
  from strip_part [of s] obtain a b where "s = a @ strip s @ b" by blast
  with d have "s = (a @ ps) @ sep @ (ss @ b)" by simp
  then show ?thesis unfolding occurs_in_iff by blast
qed

lemma clean_segments_filter:
  "clean_segments trim segs = filter (\<lambda>seg. seg \<noteq> []) (map (\<lambda>seg. if trim then strip seg else seg) segs)"
  by (induction segs) (auto simp: Let_def)

lemma replace_filter_gen:
  "new = [] \<Longrightarrow> \<forall>c\<in>set old. \<not> P c \<Longrightarrow> filter P (replace old new s) = filter P s"
proof (induction old new s rule: replace.induct)
  case (1 old new)
  then show ?case by simp
next
  case (2 old new c cs)
  show ?case
  proof (cases "old \<noteq> [] \<and> take (length old) (c # cs) = old")
    case True
    then have "c # cs = old @ drop (length old) (c # cs)"
      by (metis append_take_drop_id)
    then have "filter P (c # cs) = filter P old @ filter P (drop (length old) (c # cs))"
      by (metis filter_append)
    moreover have "filter P old = []"
      using "2.prems" by (simp add: filter_empty_conv)
    ultimately show ?thesis
      using True "2.IH"(1) "2.prems" by simp
  next
    case False
    then show ?thesis using "2.IH"(2) "2.prems" by auto
  qed
qed

lemma replace_filter:
  "\<forall>c\<in>set old. \<not> P c \<Longrightarrow> filter P (replace old [] s) = filter P s"
  by (rule replace_filter_gen) simp_all

lemma replace_single: "replace [c] [] s = filter (\<lambda>x. x \<noteq> c) s"
  by (induction s) auto

lemma remove_line_breaks:
  "replace [CHR 0x0D] [] (replace [CHR 0x0A] [] (replace [CHR 0x0D, CHR 0x0A] [] s))
     = filter (\<lambda>c. \<not> is_line_break c) s"
proof -
  have "replace [CHR 0x0D] [] (replace [CHR 0x0A] [] (replace [CHR 0x0D, CHR 0x0A] [] s))
      = filter (\<lambda>c. \<not> is_line_break c) (replace [CHR 0x0D, CHR 0x0A] [] s)"
    by (simp add: replace_single is_line_break_def conj_commute)
  also have "\<dots> = filter (\<lambda>c. \<not> is_line_break c) s"
    by (rule replace_filter) (simp add: is_line_break_def)
  finally show ?thesis .
qed


lemma blank_iff: "content = [] \<or> strip content = [] \<longleftrightarrow> blank content"
  by (auto simp: blank_def strip_empty_iff list_all_iff)

lemma isspace_line_break: "is_line_break c \<Longrightarrow> isspace c"
  by (auto simp: is_line_break_def isspace_def)

lemma blank_filter_line_breaks: "blank (filter (\<lambda>c. \<not> is_line_break c) s) \<longleftrightarrow> blank s"
  using isspace_line_break by (auto simp: blank_def list_all_iff filter_empty_conv)

lemma tokenize_content_given:
  "tokenize_content self content (Some d) =
     (if blank content then Inl EmptyFileError
      else if Delimiters.segment d = [] then Inl (ValueError ''empty separator'')
      else Inr (filter (\<lambda>seg. seg \<noteq> [])
                 (map (\<lambda>seg. if trim_whitespace (config self) then strip seg else seg)
                    (split (Delimiters.segment d)
                       (if preserve_line_breaks (config self) then content
                        else filter (\<lambda>c. \<not> is_line_break c) content)))))"
  unfolding tokenize_content_def blank_iff
  by (simp add: Let_def remove_line_breaks clean_segments_filter)

text \<open>
  Claim C8.  With delimiters supplied, \<open>tokenize_content\<close> fails with \<open>EmptyFileError\<close>
  exactly when the content is empty or all whitespace.  Otherwise, for a non-empty segment
  terminator, it returns the non-empty pieces of the content split at the terminator, each
  trimmed when \<open>trim_whitespace\<close> is set, after all line-break characters were removed when
  \<open>preserve_line_breaks\<close> is false; so every returned segment is non-empty and the
  terminator does not occur in it (for a terminator of one character: the segment does not
  hold that character).  With \<open>preserve_line_breaks\<close> false, two contents that differ only
  in their line-break characters give the same result.
\<close>

theorem tokenize_content_segments:
  "(tokenize_content self content (Some d) = Inl EmptyFileError \<longleftrightarrow> blank content)
   \<and> (\<not> blank content \<and> Delimiters.segment d \<noteq> [] \<longrightarrow>
        (\<exists>segs. tokenize_content self content (Some d) = Inr segs
           \<and> segs = filter (\<lambda>seg. seg \<noteq> [])
                      (map (\<lambda>seg. if trim_whitespace (config self) then strip seg else seg)
                         (split (Delimiters.segment d)
                            (if preserve_line_breaks (config self) then content
                             else filter (\<lambda>c. \<not> is_line_break c) content)))
           \<and> (\<forall>seg\<in>set segs. seg \<noteq> [] \<and> \<not> occurs_in (Delimiters.segment d) seg)
           \<and> (\<forall>t. Delimiters.segment d = [t] \<longrightarrow> (\<forall>seg\<in>set segs. t \<notin> set seg))))
   \<and> (\<not> preserve_line_breaks (config self)
        \<and> filter (\<lambda>c. \<not> is_line_break c) content = filter (\<lambda>c. \<not> is_line_break c) content' \<longrightarrow>
        tokenize_content self content (Some d) = tokenize_content self content' (Some d))"
proof (intro conjI impI)
  show "tokenize_content self content (Some d) = Inl EmptyFileError \<longleftrightarrow> blank content"
    by (simp add: tokenize_content_given)
next
  assume a: "\<not> blank content \<and> Delimiters.segment d \<noteq> []"
  let ?src = "if preserve_line_breaks (config self) then content
              else filter (\<lambda>c. \<not> is_line_break c) content"
  let ?segs = "filter (\<lambda>seg. seg \<noteq> [])
                 (map (\<lambda>seg. if trim_whitespace (config self) then strip seg else seg)
                    (split (Delimiters.segment d) ?src))"
  have clean: "\<forall>seg\<in>set ?segs. seg \<noteq> [] \<and> \<not> occurs_in (Delimiters.segment d) seg"
  proof
    fix seg assume "seg \<in> set ?segs"
    then obtain p where p: "p \<in> set (split (Delimiters.segment d) ?src)"
      and seg: "seg = (if trim_whitespace (config self) then strip p else p)" and ne: "seg \<noteq> []"
      unfolding set_filter set_map by blast
    from a p have "\<not> occurs_in (Delimiters.segment d) p"
      by (intro split_no_sep) simp_all
    with seg occurs_in_strip [of "Delimiters.segment d" p]
    have "\<not> occurs_in (Delimiters.segment d) seg"
      by (auto split: if_splits)
    with ne show "seg \<noteq> [] \<and> \<not> occurs_in (Delimiters.segment d) seg" by simp
  qed
  have single: "\<forall>t. Delimiters.segment d = [t] \<longrightarrow> (\<forall>seg\<in>set ?segs. t \<notin> set seg)"
  proof (intro allI impI ballI)
    fix t seg
    assume t: "Delimiters.segment d = [t]" and mem: "seg \<in> set ?segs"
    from clean mem have "\<not> occurs_in (Delimiters.segment d) seg" by blast
    then have "\<not> occurs_in [t] seg" unfolding t .
    then show "t \<notin> set seg" using occurs_in_single [of t seg] by blast
  qed
  have run: "tokenize_content self content (Some d) = Inr ?segs"
    using a by (simp add: tokenize_content_given)
  show "\<exists>segs. tokenize_content self content (Some d) = Inr segs
           \<and> segs = ?segs
           \<and> (\<forall>seg\<in>set segs. seg \<noteq> [] \<and> \<not> occurs_in (Delimiters.segment d) seg)
           \<and> (\<forall>t. Delimiters.segment d = [t] \<longrightarrow> (\<forall>seg\<in>set segs. t \<notin> set seg))"
    by (intro exI [of _ ?segs] conjI run refl clean single)
next
  assume a: "\<not> preserve_line_breaks (config self)
        \<and> filter (\<lambda>c. \<not> is_line_break c) content = filter (\<lambda>c. \<not> is_line_break c) content'"
  then have "blank content \<longleftrightarrow> blank content'"
    using blank_filter_line_breaks [of content] blank_filter_line_breaks [of content'] by simp
  with a show "tokenize_content self content (Some d) = tokenize_content self content' (Some d)"
    by (simp add: tokenize_content_given)
qed







lemma card_set_3: "card (set [a, b, c]) \<noteq> length [a, b, c] \<longleftrightarrow> \<not> distinct [a, b, c]"
  using card_distinct [of "[a, b, c]"] distinct_card [of "[a, b, c]"] by blast

text \<open>
  Claim C7.  Let \<open>s\<close> be the header after trimming.  If \<open>s\<close> starts with \<open>ISA\<close>, has at least
  106 characters, and its characters at offset 3, at offset 104 and at the end are pairwise
  distinct, \<open>detect_from_isa\<close> returns these three as element separator, sub-element
  separator and segment terminator, with no repetition separator.  If \<open>s\<close> lacks the prefix
  or is shorter than 106 characters, it fails with \<open>InvalidISASegmentError\<close>; if two of the
  three characters are equal, it fails with \<open>DelimiterDetectionError\<close>.
\<close>

theorem detect_from_isa_result:
  "(startswith (strip h) ''ISA'' \<and> 106 \<le> length (strip h)
      \<and> distinct [strip h ! 3, last (strip h), strip h ! 104] \<longrightarrow>
      detect_from_isa h =
        Inr \<lparr>Delimiters.element = [strip h ! 3], segment = [last (strip h)],
             sub_element = [strip h ! 104], repetition = None\<rparr>)
   \<and> (\<not> startswith (strip h) ''ISA'' \<or> length (strip h) < 106 \<longrightarrow>
        detect_from_isa h = Inl InvalidISASegmentError)
   \<and> (startswith (strip h) ''ISA'' \<and> 106 \<le> length (strip h)
      \<and> \<not> distinct [strip h ! 3, last (strip h), strip h ! 104] \<longrightarrow>
      detect_from_isa h = Inl DelimiterDetectionError)"
proof -
  have ne: "106 \<le> length (strip h) \<Longrightarrow> h \<noteq> []"
    by (auto simp: strip_def)
  show ?thesis
    unfolding detect_from_isa_def Let_def ISA_PREFIX_def ISA_MIN_LENGTH_def
      ELEMENT_SEPARATOR_POSITION_def SUB_ELEMENT_SEPARATOR_POSITION_def char_at_def last_char_def
      card_set_3
    using ne by (auto simp del: distinct.simps)
qed


lemma MINIMAL_ISA_facts:
  "startswith (strip (''  '' @ MINIMAL_ISA @ ''  '')) ''ISA''"
  "106 \<le> length (strip (''  '' @ MINIMAL_ISA @ ''  ''))"
  "strip (''  '' @ MINIMAL_ISA @ ''  '') ! 3 = CHR ''*''"
  "last (strip (''  '' @ MINIMAL_ISA @ ''  '')) = CHR ''~''"
  "strip (''  '' @ MINIMAL_ISA @ ''  '') ! 104 = CHR ''>''"
  by code_simp+

lemma ISA_NON_UNIQUE_facts:
  "startswith (strip ISA_NON_UNIQUE) ''ISA''"
  "106 \<le> length (strip ISA_NON_UNIQUE)"
  "strip ISA_NON_UNIQUE ! 3 = CHR ''*''"
  "last (strip ISA_NON_UNIQUE) = CHR ''~''"
  "strip ISA_NON_UNIQUE ! 104 = CHR ''~''"
  by code_simp+

lemma ISA_TOO_SHORT_facts: "length (strip ''ISA*00*TEST~'') < 106"
  by code_simp

theorem detect_from_isa_result_witness:
  "detect_from_isa (''  '' @ MINIMAL_ISA @ ''  '') = Inr standard_delimiters
   \<and> detect_from_isa ''ISA*00*TEST~'' = Inl InvalidISASegmentError
   \<and> detect_from_isa ISA_NON_UNIQUE = Inl DelimiterDetectionError"
  using detect_from_isa_result [of "''  '' @ MINIMAL_ISA @ ''  ''"]
    detect_from_isa_result [of "''ISA*00*TEST~''"]
    detect_from_isa_result [of ISA_NON_UNIQUE]
    MINIMAL_ISA_facts ISA_NON_UNIQUE_facts ISA_TOO_SHORT_facts
  by (simp add: standard_delimiters_def)

lemma two_segments_facts:
  "\<not> blank two_segments_crlf"
  "\<not> preserve_line_breaks (config (EDITokenizer_init None None))"
  "trim_whitespace (config (EDITokenizer_init None None))"
  "filter (\<lambda>c. \<not> is_line_break c) two_segments_crlf = ''AK1*PO*1234~AK9*A*1*1*1~''"
  "filter (\<lambda>c. \<not> is_line_break c) two_segments_cr = ''AK1*PO*1234~AK9*A*1*1*1~''"
  "Delimiters.segment standard_delimiters = [CHR ''~'']"
  "filter (\<lambda>seg. seg \<noteq> []) (map strip (split [CHR ''~''] ''AK1*PO*1234~AK9*A*1*1*1~''))
     = [''AK1*PO*1234'', ''AK9*A*1*1*1'']"
  "blank [CHR 0x20, CHR 0x0A, CHR 0x09]"
  by code_simp+

theorem tokenize_content_segments_witness:
  "tokenize_content (EDITokenizer_init None None) two_segments_crlf (Some standard_delimiters)
     = Inr [''AK1*PO*1234'', ''AK9*A*1*1*1'']
   \<and> tokenize_content (EDITokenizer_init None None) two_segments_cr (Some standard_delimiters)
     = Inr [''AK1*PO*1234'', ''AK9*A*1*1*1'']
   \<and> tokenize_content (EDITokenizer_init None None) [CHR 0x20, CHR 0x0A, CHR 0x09]
        (Some standard_delimiters) = Inl EmptyFileError"
proof -
  note crlf = tokenize_content_segments [of "EDITokenizer_init None None" two_segments_crlf
      standard_delimiters two_segments_cr]
  note ws = tokenize_content_segments [of "EDITokenizer_init None None"
      "[CHR 0x20, CHR 0x0A, CHR 0x09]" standard_delimiters "[]"]
  have given: "\<not> blank two_segments_crlf \<and> Delimiters.segment standard_delimiters \<noteq> []"
    using two_segments_facts(1,6) by simp
  from crlf given obtain segs where segs:
    "tokenize_content (EDITokenizer_init None None) two_segments_crlf (Some standard_delimiters)
       = Inr segs"
    "segs = filter (\<lambda>seg. seg \<noteq> [])
              (map (\<lambda>seg. if trim_whitespace (config (EDITokenizer_init None None))
                           then strip seg else seg)
                 (split (Delimiters.segment standard_delimiters)
                    (if preserve_line_breaks (config (EDITokenizer_init None None))
                     then two_segments_crlf
                     else filter (\<lambda>c. \<not> is_line_break c) two_segments_crlf)))"
    by blast
  from segs(2) have "segs = [''AK1*PO*1234'', ''AK9*A*1*1*1'']"
    by (simp add: two_segments_facts)
  with segs(1) have a:
    "tokenize_content (EDITokenizer_init None None) two_segments_crlf (Some standard_delimiters)
       = Inr [''AK1*PO*1234'', ''AK9*A*1*1*1'']"
    by simp
  have same: "filter (\<lambda>c. \<not> is_line_break c) two_segments_crlf
                = filter (\<lambda>c. \<not> is_line_break c) two_segments_cr"
    using two_segments_facts by simp
  from crlf same two_segments_facts(2) have b:
    "tokenize_content (EDITokenizer_init None None) two_segments_crlf (Some standard_delimiters)
       = tokenize_content (EDITokenizer_init None None) two_segments_cr (Some standard_delimiters)"
    by blast
  from ws two_segments_facts have c:
    "tokenize_content (EDITokenizer_init None None) [CHR 0x20, CHR 0x0A, CHR 0x09]
        (Some standard_delimiters) = Inl EmptyFileError"
    by blast
  from a b c show ?thesis by simp
qed



section \<open>Validation result models (\<open>src/models/validation.py\<close>)\<close>

text \<open>
  Every model below is a pydantic class whose configuration sets \<open>str_strip_whitespace\<close>:
  constructing an instance strips each string argument.  The functions \<open>*_init\<close> are
  these constructors.  None of these classes constrains a field, so construction cannot fail.
  A field that receives an instance of another model keeps it as it is.
\<close>

datatype ErrorSeverity = ERROR | WARNING | INFO

record ErrorDetail =
  segment_id :: "string option"
  segment_position :: "int option"
  element_position :: "int option"
  element_reference_number :: "int option"
  error_code :: string
  error_description :: string
  severity :: ErrorSeverity
  bad_data_element :: "string option"

definition ErrorDetail_init ::
  "string option \<Rightarrow> int option \<Rightarrow> int option \<Rightarrow> int option \<Rightarrow> string \<Rightarrow> string \<Rightarrow>
   ErrorSeverity \<Rightarrow> string option \<Rightarrow> ErrorDetail" where
  "ErrorDetail_init sid spos epos eref code descr sev bad =
     \<lparr>ErrorDetail.segment_id = map_option strip sid,
      segment_position = spos,
      element_position = epos,
      element_reference_number = eref,
      error_code = strip code,
      error_description = strip descr,
      severity = sev,
      bad_data_element = map_option strip bad\<rparr>"

record TransactionSetValidation =
  transaction_set_id :: string
  transaction_control_number :: string
  status :: TransactionStatus
  ack_code :: string
  error_count :: int
  errors :: "ErrorDetail list"
  syntax_error_codes :: "string list"

definition TransactionSetValidation_init ::
  "string \<Rightarrow> string \<Rightarrow> TransactionStatus \<Rightarrow> string \<Rightarrow> int \<Rightarrow> ErrorDetail list \<Rightarrow>
   string list \<Rightarrow> TransactionSetValidation" where
  "TransactionSetValidation_init tsid tcn st code n errs codes =
     \<lparr>TransactionSetValidation.transaction_set_id = strip tsid,
      transaction_control_number = strip tcn,
      status = st,
      ack_code = strip code,
      error_count = n,
      errors = errs,
      syntax_error_codes = map strip codes\<rparr>"

record FunctionalGroupValidation =
  functional_id_code :: string
  group_control_number :: string
  status :: FunctionalGroupStatus
  ack_code :: string
  transaction_sets_included :: int
  transaction_sets_received :: int
  transaction_sets_accepted :: int
  transaction_validations :: "TransactionSetValidation list"
  group_syntax_error_codes :: "string list"

definition FunctionalGroupValidation_init ::
  "string \<Rightarrow> string \<Rightarrow> FunctionalGroupStatus \<Rightarrow> string \<Rightarrow> int \<Rightarrow> int \<Rightarrow> int \<Rightarrow>
   TransactionSetValidation list \<Rightarrow> string list \<Rightarrow> FunctionalGroupValidation" where
  "FunctionalGroupValidation_init fid gcn st code n_incl n_recv n_acc tvs codes =
     \<lparr>FunctionalGroupValidation.functional_id_code = strip fid,
      group_control_number = strip gcn,
      status = st,
      ack_code = strip code,
      transaction_sets_included = n_incl,
      transaction_sets_received = n_recv,
      transaction_sets_accepted = n_acc,
      transaction_validations = tvs,
      group_syntax_error_codes = map strip codes\<rparr>"

text \<open>
  \<open>ValidationResult.validation_timestamp\<close> defaults to the clock reading at construction;
  it is not an input of the pipeline and is left out of the record.
\<close>

record ValidationResult =
  interchange_control_number :: string
  interchange_sender_id :: string
  interchange_receiver_id :: string
  functional_group :: FunctionalGroupValidation
  is_valid :: bool

definition ValidationResult_init ::
  "string \<Rightarrow> string \<Rightarrow> string \<Rightarrow> FunctionalGroupValidation \<Rightarrow> bool \<Rightarrow> ValidationResult" where
  "ValidationResult_init icn sender receiver fg valid =
     \<lparr>ValidationResult.interchange_control_number = strip icn,
      interchange_sender_id = strip sender,
      interchange_receiver_id = strip receiver,
      functional_group = fg,
      is_valid = valid\<rparr>"

section \<open>Segment models (\<open>src/models/segments.py\<close>)\<close>

text \<open>
  The typed segment records, as the segment parser builds them.  Their field constraints
  are checked at construction, before the validator sees a record.
\<close>

record ISASegment =
  authorization_info_qualifier :: string
  authorization_info :: string
  security_info_qualifier :: string
  security_info :: string
  interchange_sender_qualifier :: string
  interchange_sender_id :: string
  interchange_receiver_qualifier :: string
  interchange_receiver_id :: string
  interchange_date :: string
  interchange_time :: string
  interchange_control_standards_id :: string
  interchange_control_version_number :: string
  interchange_control_number :: string
  acknowledgment_requested :: string
  test_indicator :: string
  sub_element_separator :: string

record GSSegment =
  functional_id_code :: string
  application_sender_code :: string
  application_receiver_code :: string
  date :: string
  time :: string
  group_control_number :: string
  responsible_agency_code :: string
  version_release_industry_id :: string

record STSegment =
  transaction_set_id :: string
  transaction_set_control_number :: string
  implementation_convention_reference :: "string option"

record AK1Segment =
  functional_id_code :: string
  group_control_number :: string
  version_release_industry_id :: "string option"

record AK2Segment =
  transaction_set_id :: string
  transaction_set_control_number :: string
  implementation_convention_reference :: "string option"

record AK3Segment =
  segment_id :: string
  segment_position_in_transaction_set :: int
  loop_identifier_code :: "string option"
  segment_syntax_error_code :: "string option"

record AK4Segment =
  element_position_in_segment :: int
  data_element_reference_number :: "int option"
  data_element_syntax_error_code :: string
  copy_of_bad_data_element :: "string option"

record AK5Segment =
  transaction_set_ack_code :: string
  transaction_set_syntax_error_code_1 :: "string option"
  transaction_set_syntax_error_code_2 :: "string option"
  transaction_set_syntax_error_code_3 :: "string option"
  transaction_set_syntax_error_code_4 :: "string option"
  transaction_set_syntax_error_code_5 :: "string option"

record AK9Segment =
  functional_group_ack_code :: string
  number_of_transaction_sets_included :: int
  number_of_received_transaction_sets :: int
  number_of_accepted_transaction_sets :: int
  functional_group_syntax_error_code_1 :: "string option"
  functional_group_syntax_error_code_2 :: "string option"
  functional_group_syntax_error_code_3 :: "string option"
  functional_group_syntax_error_code_4 :: "string option"
  functional_group_syntax_error_code_5 :: "string option"

record SESegment =
  number_of_included_segments :: int
  transaction_set_control_number :: string

record GESegment =
  number_of_transaction_sets :: int
  group_control_number :: string

record IEASegment =
  number_of_included_groups :: int
  interchange_control_number :: string

definition AK5_get_error_codes :: "AK5Segment \<Rightarrow> string list" where
  "AK5_get_error_codes self =
     [code. Some code \<leftarrow>
        [transaction_set_syntax_error_code_1 self,
         transaction_set_syntax_error_code_2 self,
         transaction_set_syntax_error_code_3 self,
         transaction_set_syntax_error_code_4 self,
         transaction_set_syntax_error_code_5 self]]"

definition AK9_get_error_codes :: "AK9Segment \<Rightarrow> string list" where
  "AK9_get_error_codes self =
     [code. Some code \<leftarrow>
        [functional_group_syntax_error_code_1 self,
         functional_group_syntax_error_code_2 self,
         functional_group_syntax_error_code_3 self,
         functional_group_syntax_error_code_4 self,
         functional_group_syntax_error_code_5 self]]"

text \<open>What \<open>parse_segment_by_id\<close> returns: one of the twelve segment classes.\<close>

datatype parsed_segment =
    ISA ISASegment
  | GS GSSegment
  | ST STSegment
  | AK1 AK1Segment
  | AK2 AK2Segment
  | AK3 AK3Segment
  | AK4 AK4Segment
  | AK5 AK5Segment
  | AK9 AK9Segment
  | SE SESegment
  | GE GESegment
  | IEA IEASegment

section \<open>Error code lookup (\<open>src/utils/error_code_mapper.py\<close>)\<close>

text \<open>
  The code tables are read from \<open>error_codes.yaml\<close>, which is not part of the sources; they
  are a parameter.  A table maps a code to an entry, and an entry is a dictionary of
  strings.  A table that the file lacks is the empty map.
\<close>

type_synonym code_table = "string \<rightharpoonup> (string \<times> string) list"

record ErrorCodeMapper =
  segment_syntax_errors :: code_table
  element_syntax_errors :: code_table
  transaction_set_syntax_errors :: code_table

record ErrorCodeInfo =
  code :: string
  description :: string
  severity :: string
  classification :: "string option"

definition dict_get :: "(string \<times> string) list \<Rightarrow> string \<Rightarrow> string \<Rightarrow> string" where
  "dict_get d key dflt = (case map_of d key of Some v \<Rightarrow> v | None \<Rightarrow> dflt)"

definition lookup_error ::
  "code_table \<Rightarrow> string \<Rightarrow> string \<Rightarrow> ErrorCodeInfo" where
  "lookup_error table unknown c =
     (let error_data = (case table c of Some d \<Rightarrow> d | None \<Rightarrow> [])
      in if error_data = []
         then \<lparr>code = c, description = unknown @ c, severity = ''error'', classification = None\<rparr>
         else \<lparr>code = dict_get error_data ''code'' c,
               description = dict_get error_data ''description'' ''Unknown error'',
               severity = dict_get error_data ''severity'' ''error'',
               classification = None\<rparr>)"

definition get_segment_error :: "ErrorCodeMapper \<Rightarrow> string \<Rightarrow> ErrorCodeInfo" where
  "get_segment_error self c =
     lookup_error (segment_syntax_errors self) ''Unknown segment syntax error: '' c"

definition get_element_error :: "ErrorCodeMapper \<Rightarrow> string \<Rightarrow> ErrorCodeInfo" where
  "get_element_error self c =
     lookup_error (element_syntax_errors self) ''Unknown element syntax error: '' c"

definition get_transaction_set_error :: "ErrorCodeMapper \<Rightarrow> string \<Rightarrow> ErrorCodeInfo" where
  "get_transaction_set_error self c =
     lookup_error (transaction_set_syntax_errors self)
       ''Unknown transaction set syntax error: '' c"

section \<open>The validator (\<open>src/validation/validator.py\<close>)\<close>

record Validator997 =
  error_mapper :: ErrorCodeMapper

definition build_error_detail_from_ak4 ::
  "Validator997 \<Rightarrow> AK4Segment \<Rightarrow> AK3Segment option \<Rightarrow> ErrorDetail" where
  "build_error_detail_from_ak4 self ak4 ak3 =
     (let error_info = get_element_error (error_mapper self) (data_element_syntax_error_code ak4)
      in ErrorDetail_init
           (case ak3 of Some a \<Rightarrow> Some (AK3Segment.segment_id a) | None \<Rightarrow> None)
           (case ak3 of Some a \<Rightarrow> Some (segment_position_in_transaction_set a) | None \<Rightarrow> None)
           (Some (element_position_in_segment ak4))
           (data_element_reference_number ak4)
           (data_element_syntax_error_code ak4)
           (description error_info)
           ERROR
           (copy_of_bad_data_element ak4))"

text \<open>A string option is true in a condition when it is present and not empty.\<close>

definition truthy :: "string option \<Rightarrow> bool" where
  "truthy v \<longleftrightarrow> (case v of Some s \<Rightarrow> s \<noteq> [] | None \<Rightarrow> False)"

definition build_error_detail_from_ak3 :: "Validator997 \<Rightarrow> AK3Segment \<Rightarrow> ErrorDetail" where
  "build_error_detail_from_ak3 self ak3 =
     (let error_code =
            (case segment_syntax_error_code ak3 of
               Some c \<Rightarrow> if c \<noteq> [] then c else ''8''
             | None \<Rightarrow> ''8'');
          error_info = get_segment_error (error_mapper self) error_code
      in ErrorDetail_init
           (Some (AK3Segment.segment_id ak3))
           (Some (segment_position_in_transaction_set ak3))
           None None error_code (description error_info) ERROR None)"

definition validate_transaction_set ::
  "Validator997 \<Rightarrow> AK2Segment \<Rightarrow> AK5Segment \<Rightarrow> AK3Segment list \<Rightarrow> AK4Segment list \<Rightarrow>
   TransactionSetValidation" where
  "validate_transaction_set self ak2 ak5 ak3_segments ak4_segments =
     (let st = classify_transaction_status (transaction_set_ack_code ak5);
          errs = map (build_error_detail_from_ak3 self)
                   (filter (\<lambda>ak3. truthy (segment_syntax_error_code ak3)) ak3_segments);
          current_ak3 = (if ak3_segments \<noteq> [] then Some (last ak3_segments) else None);
          errs = errs @ map (\<lambda>ak4. build_error_detail_from_ak4 self ak4 current_ak3) ak4_segments;
          codes = AK5_get_error_codes ak5;
          errs = errs @
            map (\<lambda>error_code.
                   ErrorDetail_init None None None None error_code
                     (description (get_transaction_set_error (error_mapper self) error_code))
                     ERROR None)
              codes
      in TransactionSetValidation_init
           (AK2Segment.transaction_set_id ak2)
           (AK2Segment.transaction_set_control_number ak2)
           st
           (transaction_set_ack_code ak5)
           (int (length errs))
           errs
           codes)"

definition validate_functional_group ::
  "Validator997 \<Rightarrow> AK1Segment \<Rightarrow> AK9Segment \<Rightarrow> TransactionSetValidation list \<Rightarrow>
   FunctionalGroupValidation" where
  "validate_functional_group self ak1 ak9 tvs =
     FunctionalGroupValidation_init
       (AK1Segment.functional_id_code ak1)
       (AK1Segment.group_control_number ak1)
       (classify_functional_group_status (functional_group_ack_code ak9))
       (functional_group_ack_code ak9)
       (number_of_transaction_sets_included ak9)
       (number_of_received_transaction_sets ak9)
       (number_of_accepted_transaction_sets ak9)
       tvs
       (AK9_get_error_codes ak9)"

definition validate_997 ::
  "Validator997 \<Rightarrow> ISASegment \<Rightarrow> AK1Segment \<Rightarrow> AK9Segment \<Rightarrow> TransactionSetValidation list \<Rightarrow>
   ValidationResult" where
  "validate_997 self isa ak1 ak9 tvs =
     (let fg_validation = validate_functional_group self ak1 ak9 tvs
      in ValidationResult_init
           (ISASegment.interchange_control_number isa)
           (interchange_sender_id isa)
           (interchange_receiver_id isa)
           fg_validation
           (FunctionalGroupValidation.status fg_validation = FunctionalGroupStatus.ACCEPTED))"

section \<open>The scan of the parsed segments (\<open>src/utils/validation_pipeline.py\<close>)\<close>

text \<open>
  \<open>run_validation_pipeline\<close> detects the delimiters, tokenizes and parses every segment;
  each of these steps raises on failure.  What follows is the rest of the function: the
  scan of the list \<open>parsed_segments\<close>.  The record holds its local variables.
\<close>

record pipeline_state =
  isa :: "ISASegment option"
  ak1 :: "AK1Segment option"
  ak9 :: "AK9Segment option"
  transaction_validations :: "TransactionSetValidation list"
  current_ak2 :: "AK2Segment option"
  current_ak3_segments :: "AK3Segment list"
  current_ak4_segments :: "AK4Segment list"

definition initial_state :: pipeline_state where
  "initial_state =
     \<lparr>isa = None, ak1 = None, ak9 = None,
      pipeline_state.transaction_validations = [],
      current_ak2 = None, current_ak3_segments = [], current_ak4_segments = []\<rparr>"

text \<open>
  \<open>next((s for s in parsed_segments[parsed_segments.index(current_ak2):]
  if isinstance(s, AK5Segment)), None)\<close>: \<open>index\<close> finds the first element equal to the open
  AK2, and pydantic models are equal when their class and fields are.  The open AK2 is an
  element of the list, so \<open>index\<close> does not raise.
\<close>

fun first_ak5 :: "parsed_segment list \<Rightarrow> AK5Segment option" where
  "first_ak5 [] = None"
| "first_ak5 (AK5 seg # rest) = Some seg"
| "first_ak5 (seg # rest) = first_ak5 rest"

definition next_ak5_from :: "parsed_segment list \<Rightarrow> AK2Segment \<Rightarrow> AK5Segment option" where
  "next_ak5_from parsed_segments cur =
     first_ak5 (dropWhile (\<lambda>s. s \<noteq> AK2 cur) parsed_segments)"

fun scan_step ::
  "Validator997 \<Rightarrow> parsed_segment list \<Rightarrow> pipeline_state \<Rightarrow> parsed_segment \<Rightarrow> pipeline_state"
  where
  "scan_step validator parsed_segments s (ISA seg) = s\<lparr>isa := Some seg\<rparr>"
| "scan_step validator parsed_segments s (AK1 seg) = s\<lparr>ak1 := Some seg\<rparr>"
| "scan_step validator parsed_segments s (AK2 seg) =
     (let s =
        (case current_ak2 s of
           Some cur \<Rightarrow>
             (case next_ak5_from parsed_segments cur of
                Some ak5 \<Rightarrow>
                  s\<lparr>pipeline_state.transaction_validations :=
                      pipeline_state.transaction_validations s
                      @ [validate_transaction_set validator cur ak5
                           (current_ak3_segments s) (current_ak4_segments s)]\<rparr>
              | None \<Rightarrow> s)
         | None \<Rightarrow> s)
      in s\<lparr>current_ak2 := Some seg, current_ak3_segments := [], current_ak4_segments := []\<rparr>)"
| "scan_step validator parsed_segments s (AK3 seg) =
     s\<lparr>current_ak3_segments := current_ak3_segments s @ [seg]\<rparr>"
| "scan_step validator parsed_segments s (AK4 seg) =
     s\<lparr>current_ak4_segments := current_ak4_segments s @ [seg]\<rparr>"
| "scan_step validator parsed_segments s (AK5 seg) =
     (case current_ak2 s of
        Some cur \<Rightarrow>
          s\<lparr>pipeline_state.transaction_validations :=
              pipeline_state.transaction_validations s
              @ [validate_transaction_set validator cur seg
                   (current_ak3_segments s) (current_ak4_segments s)],
            current_ak2 := None, current_ak3_segments := [], current_ak4_segments := []\<rparr>
      | None \<Rightarrow> s)"
| "scan_step validator parsed_segments s (AK9 seg) = s\<lparr>ak9 := Some seg\<rparr>"
| "scan_step validator parsed_segments s seg = s"

definition scan :: "Validator997 \<Rightarrow> parsed_segment list \<Rightarrow> pipeline_state" where
  "scan validator parsed_segments =
     foldl (scan_step validator parsed_segments) initial_state parsed_segments"

definition run_validation_pipeline_scan ::
  "Validator997 \<Rightarrow> parsed_segment list \<Rightarrow> error + ValidationResult" where
  "run_validation_pipeline_scan validator parsed_segments =
     (let s = scan validator parsed_segments
      in case (isa s, ak1 s, ak9 s) of
           (Some i, Some a1, Some a9) \<Rightarrow>
             Inr (validate_997 validator i a1 a9 (pipeline_state.transaction_validations s))
         | _ \<Rightarrow> Inl (ValueError ''Missing required segments (ISA, AK1, or AK9)''))"

section \<open>Scan: notions used in the statements\<close>

text \<open>
  The AK2, AK3, AK4 and AK5 segments of a stream; the segments that open or close a loop;
  the segments from a position up to the next AK2 or AK5.  \<open>ak2_loops\<close> lists, for every
  AK2 of the stream that has an AK5 after it, the AK2, the first AK5 after it, and the AK3
  and AK4 segments between the AK2 and the next AK2 or AK5.  \<open>last_isa\<close>, \<open>last_ak1\<close> and
  \<open>last_ak9\<close> are the last segment of their kind in the stream.
\<close>

definition ak3s_of :: "parsed_segment list \<Rightarrow> AK3Segment list" where
  "ak3s_of segs = [a. AK3 a \<leftarrow> segs]"

definition ak4s_of :: "parsed_segment list \<Rightarrow> AK4Segment list" where
  "ak4s_of segs = [a. AK4 a \<leftarrow> segs]"

definition ak2s_of :: "parsed_segment list \<Rightarrow> AK2Segment list" where
  "ak2s_of segs = [a. AK2 a \<leftarrow> segs]"

fun loop_boundary :: "parsed_segment \<Rightarrow> bool" where
  "loop_boundary (AK2 a) = True"
| "loop_boundary (AK5 a) = True"
| "loop_boundary seg = False"

definition open_span :: "parsed_segment list \<Rightarrow> parsed_segment list" where
  "open_span rest = takeWhile (\<lambda>seg. \<not> loop_boundary seg) rest"

type_synonym ak2_loop = "AK2Segment \<times> AK5Segment \<times> AK3Segment list \<times> AK4Segment list"

fun ak2_loops :: "parsed_segment list \<Rightarrow> ak2_loop list" where
  "ak2_loops [] = []"
| "ak2_loops (AK2 a # rest) =
     (case first_ak5 rest of
        Some k \<Rightarrow> (a, k, ak3s_of (open_span rest), ak4s_of (open_span rest)) # ak2_loops rest
      | None \<Rightarrow> ak2_loops rest)"
| "ak2_loops (seg # rest) = ak2_loops rest"

text \<open>
  \<open>each_closed\<close>: no AK2 arrives while another AK2 is open, that is, every AK2 is
  followed by an AK5 before the next AK2.
\<close>

fun no_open_overlap :: "bool \<Rightarrow> parsed_segment list \<Rightarrow> bool" where
  "no_open_overlap opn [] = True"
| "no_open_overlap opn (AK2 a # rest) = (\<not> opn \<and> no_open_overlap True rest)"
| "no_open_overlap opn (AK5 k # rest) = no_open_overlap False rest"
| "no_open_overlap opn (seg # rest) = no_open_overlap opn rest"

definition each_closed :: "parsed_segment list \<Rightarrow> bool" where
  "each_closed segs = no_open_overlap False segs"

definition validate_loop :: "Validator997 \<Rightarrow> ak2_loop \<Rightarrow> TransactionSetValidation" where
  "validate_loop validator l =
     (case l of (a, k, ak3s, ak4s) \<Rightarrow> validate_transaction_set validator a k ak3s ak4s)"

fun last_isa :: "parsed_segment list \<Rightarrow> ISASegment option" where
  "last_isa [] = None"
| "last_isa (seg # rest) =
     (case last_isa rest of
        Some i \<Rightarrow> Some i
      | None \<Rightarrow> (case seg of ISA i \<Rightarrow> Some i | _ \<Rightarrow> None))"

fun last_ak1 :: "parsed_segment list \<Rightarrow> AK1Segment option" where
  "last_ak1 [] = None"
| "last_ak1 (seg # rest) =
     (case last_ak1 rest of
        Some a \<Rightarrow> Some a
      | None \<Rightarrow> (case seg of AK1 a \<Rightarrow> Some a | _ \<Rightarrow> None))"

fun last_ak9 :: "parsed_segment list \<Rightarrow> AK9Segment option" where
  "last_ak9 [] = None"
| "last_ak9 (seg # rest) =
     (case last_ak9 rest of
        Some a \<Rightarrow> Some a
      | None \<Rightarrow> (case seg of AK9 a \<Rightarrow> Some a | _ \<Rightarrow> None))"

definition ak5s_of :: "parsed_segment list \<Rightarrow> AK5Segment list" where
  "ak5s_of segs = [a. AK5 a \<leftarrow> segs]"

section \<open>Scan: example inputs\<close>

text \<open>
  Segments of the test fixtures, a validator with a few entries of the code tables, and
  five short streams.
\<close>

definition isa_example :: ISASegment where
  "isa_example =
     \<lparr>authorization_info_qualifier = ''00'', authorization_info = [],
      security_info_qualifier = ''00'', security_info = [],
      interchange_sender_qualifier = ''ZZ'', interchange_sender_id = ''SENDER'',
      interchange_receiver_qualifier = ''ZZ'', interchange_receiver_id = ''RECEIVER'',
      interchange_date = ''230101'', interchange_time = ''1200'',
      interchange_control_standards_id = ''U'', interchange_control_version_number = ''00401'',
      ISASegment.interchange_control_number = ''000000001'', acknowledgment_requested = ''0'',
      test_indicator = ''P'', sub_element_separator = ''>''\<rparr>"

definition ak1_po :: AK1Segment where
  "ak1_po = \<lparr>AK1Segment.functional_id_code = ''PO'', group_control_number = ''1234'',
             version_release_industry_id = None\<rparr>"


definition ak2_5678 :: AK2Segment where
  "ak2_5678 = \<lparr>AK2Segment.transaction_set_id = ''850'', transaction_set_control_number = ''5678'',
               implementation_convention_reference = None\<rparr>"

definition ak2_5679 :: AK2Segment where
  "ak2_5679 = \<lparr>AK2Segment.transaction_set_id = ''850'', transaction_set_control_number = ''5679'',
               implementation_convention_reference = None\<rparr>"

definition ak3_n1 :: AK3Segment where
  "ak3_n1 = \<lparr>AK3Segment.segment_id = ''N1'', segment_position_in_transaction_set = 2,
             loop_identifier_code = None, segment_syntax_error_code = None\<rparr>"


definition ak4_66 :: AK4Segment where
  "ak4_66 = \<lparr>element_position_in_segment = 1, data_element_reference_number = Some 66,
             data_element_syntax_error_code = ''1'', copy_of_bad_data_element = Some ''BAD''\<rparr>"


definition ak5_r :: AK5Segment where
  "ak5_r = \<lparr>transaction_set_ack_code = ''R'', transaction_set_syntax_error_code_1 = Some ''5'',
            transaction_set_syntax_error_code_2 = None, transaction_set_syntax_error_code_3 = None,
            transaction_set_syntax_error_code_4 = None, transaction_set_syntax_error_code_5 = None\<rparr>"

definition ak5_a :: AK5Segment where
  "ak5_a = \<lparr>transaction_set_ack_code = ''A'', transaction_set_syntax_error_code_1 = None,
            transaction_set_syntax_error_code_2 = None, transaction_set_syntax_error_code_3 = None,
            transaction_set_syntax_error_code_4 = None, transaction_set_syntax_error_code_5 = None\<rparr>"

definition ak9_r :: AK9Segment where
  "ak9_r = \<lparr>functional_group_ack_code = ''R'', number_of_transaction_sets_included = 1,
            number_of_received_transaction_sets = 1, number_of_accepted_transaction_sets = 0,
            functional_group_syntax_error_code_1 = None, functional_group_syntax_error_code_2 = None,
            functional_group_syntax_error_code_3 = None, functional_group_syntax_error_code_4 = None,
            functional_group_syntax_error_code_5 = None\<rparr>"


definition validator_example :: Validator997 where
  "validator_example =
     \<lparr>error_mapper =
        \<lparr>segment_syntax_errors =
           [''8'' \<mapsto> [(''code'', ''8''), (''description'', ''Segment has data element errors'')]],
         element_syntax_errors =
           [''1'' \<mapsto> [(''code'', ''1''), (''description'', ''Mandatory data element missing'')],
            ''7'' \<mapsto> [(''code'', ''7''), (''description'', ''Invalid code value'')]],
         transaction_set_syntax_errors =
           [''5'' \<mapsto> [(''code'', ''5''), (''description'', ''One or more segments in error'')]]\<rparr>\<rparr>"

definition stream_two_loops :: "parsed_segment list" where
  "stream_two_loops =
     [ISA isa_example, AK1 ak1_po, AK2 ak2_5678, AK3 ak3_n1, AK4 ak4_66, AK5 ak5_r,
      AK2 ak2_5679, AK5 ak5_a, AK9 ak9_r]"

definition stream_unclosed :: "parsed_segment list" where
  "stream_unclosed =
     [ISA isa_example, AK1 ak1_po, AK2 ak2_5678, AK2 ak2_5679, AK5 ak5_r, AK9 ak9_r]"




section \<open>Scan: results\<close>

lemma isa_foldl:
  "isa (foldl (scan_step v all) s segs) = (case last_isa segs of Some i \<Rightarrow> Some i | None \<Rightarrow> isa s)"
proof (induction segs arbitrary: s)
  case Nil
  then show ?case by simp
next
  case (Cons seg segs)
  show ?case
    by (cases seg) (simp_all add: Cons.IH Let_def split: option.splits)
qed

lemma ak1_foldl:
  "ak1 (foldl (scan_step v all) s segs) = (case last_ak1 segs of Some a \<Rightarrow> Some a | None \<Rightarrow> ak1 s)"
proof (induction segs arbitrary: s)
  case Nil
  then show ?case by simp
next
  case (Cons seg segs)
  show ?case
    by (cases seg) (simp_all add: Cons.IH Let_def split: option.splits)
qed

lemma ak9_foldl:
  "ak9 (foldl (scan_step v all) s segs) = (case last_ak9 segs of Some a \<Rightarrow> Some a | None \<Rightarrow> ak9 s)"
proof (induction segs arbitrary: s)
  case Nil
  then show ?case by simp
next
  case (Cons seg segs)
  show ?case
    by (cases seg) (simp_all add: Cons.IH Let_def split: option.splits)
qed







lemma first_ak5_append:
  "first_ak5 (xs @ ys) = (case first_ak5 xs of Some k \<Rightarrow> Some k | None \<Rightarrow> first_ak5 ys)"
  by (induction xs rule: first_ak5.induct) auto

lemma first_ak5_not_boundary: "\<not> loop_boundary seg \<Longrightarrow> first_ak5 (seg # rest) = first_ak5 rest"
  by (cases seg) auto

lemma first_ak5_snoc_None:
  "first_ak5 p = None \<Longrightarrow> (\<And>k. seg \<noteq> AK5 k) \<Longrightarrow> first_ak5 (p @ [seg]) = None"
  by (cases seg) (auto simp: first_ak5_append)

lemma next_ak5_from_split:
  assumes "AK2 cur \<notin> set p1" and "first_ak5 p2 = None"
  shows "next_ak5_from (p1 @ AK2 cur # p2 @ rest) cur = first_ak5 rest"
proof -
  have "dropWhile (\<lambda>s. s \<noteq> AK2 cur) (p1 @ AK2 cur # p2 @ rest) = AK2 cur # p2 @ rest"
    using assms(1) by (induction p1) auto
  then show ?thesis
    using assms(2) by (simp add: next_ak5_from_def first_ak5_append)
qed

text \<open>
  Two notions of the proofs: the open AK2 of a state reached after the segments \<open>pre\<close> was
  opened by an AK2 of \<open>pre\<close> with no AK5 after it; and the validation that the open AK2
  will still produce from the segments \<open>rest\<close>.
\<close>

definition open_ok :: "parsed_segment list \<Rightarrow> pipeline_state \<Rightarrow> bool" where
  "open_ok pre s \<longleftrightarrow>
     (case current_ak2 s of
        None \<Rightarrow> True
      | Some cur \<Rightarrow> (\<exists>p1 p2. pre = p1 @ AK2 cur # p2 \<and> AK2 cur \<notin> set p1 \<and> first_ak5 p2 = None))"

definition pending ::
  "Validator997 \<Rightarrow> pipeline_state \<Rightarrow> parsed_segment list \<Rightarrow> TransactionSetValidation list" where
  "pending v s rest =
     (case current_ak2 s of
        None \<Rightarrow> []
      | Some cur \<Rightarrow>
          (case first_ak5 rest of
             None \<Rightarrow> []
           | Some k \<Rightarrow>
               [validate_transaction_set v cur k
                  (current_ak3_segments s @ ak3s_of (open_span rest))
                  (current_ak4_segments s @ ak4s_of (open_span rest))]))"

lemma open_ok_snoc:
  assumes "open_ok pre s" and "\<And>k. seg \<noteq> AK5 k"
    and "current_ak2 s' = current_ak2 s"
  shows "open_ok (pre @ [seg]) s'"
proof (cases "current_ak2 s")
  case None
  with assms(3) show ?thesis by (simp add: open_ok_def)
next
  case (Some cur)
  with assms(1) obtain p1 p2 where p: "pre = p1 @ AK2 cur # p2" "AK2 cur \<notin> set p1"
    "first_ak5 p2 = None"
    by (auto simp: open_ok_def)
  from p(3) assms(2) have "first_ak5 (p2 @ [seg]) = None"
    by (rule first_ak5_snoc_None)
  with p(1,2) have "\<exists>q1 q2. pre @ [seg] = q1 @ AK2 cur # q2 \<and> AK2 cur \<notin> set q1
      \<and> first_ak5 q2 = None"
    by (intro exI [of _ p1] exI [of _ "p2 @ [seg]"]) simp
  with Some assms(3) show ?thesis
    by (simp add: open_ok_def)
qed

lemma pending_skip:
  assumes "\<not> loop_boundary seg"
    and "current_ak2 s' = current_ak2 s"
    and "current_ak3_segments s' = current_ak3_segments s @ ak3s_of [seg]"
    and "current_ak4_segments s' = current_ak4_segments s @ ak4s_of [seg]"
  shows "pending v s (seg # rest) = pending v s' rest"
proof -
  have "open_span (seg # rest) = seg # open_span rest"
    using assms(1) by (simp add: open_span_def)
  moreover have "ak3s_of (seg # open_span rest) = ak3s_of [seg] @ ak3s_of (open_span rest)"
    "ak4s_of (seg # open_span rest) = ak4s_of [seg] @ ak4s_of (open_span rest)"
    by (simp_all add: ak3s_of_def ak4s_of_def)
  ultimately show ?thesis
    using assms by (simp add: pending_def first_ak5_not_boundary split: option.splits)
qed

lemma open_span_boundary: "loop_boundary seg \<Longrightarrow> open_span (seg # rest) = []"
  by (simp add: open_span_def)

lemma step_AK5_tvs:
  "pipeline_state.transaction_validations (scan_step v all s (AK5 k))
     = pipeline_state.transaction_validations s @ pending v s (AK5 k # rest)"
  by (cases "current_ak2 s")
    (simp_all add: pending_def open_span_boundary ak3s_of_def ak4s_of_def)

lemma step_AK5_open: "current_ak2 (scan_step v all s (AK5 k)) = None"
  by (cases "current_ak2 s") simp_all

lemma step_AK2_tvs:
  assumes "\<And>cur. current_ak2 s = Some cur \<Longrightarrow> next_ak5_from all cur = first_ak5 rest"
  shows "pipeline_state.transaction_validations (scan_step v all s (AK2 a))
     = pipeline_state.transaction_validations s @ pending v s (AK2 a # rest)"
proof (cases "current_ak2 s")
  case None
  then show ?thesis by (simp add: pending_def)
next
  case (Some cur)
  with assms have "next_ak5_from all cur = first_ak5 rest" by simp
  with Some show ?thesis
    by (cases "first_ak5 rest")
      (simp_all add: pending_def open_span_boundary ak3s_of_def ak4s_of_def)
qed

lemma step_AK2_open:
  "current_ak2 (scan_step v all s (AK2 a)) = Some a
   \<and> current_ak3_segments (scan_step v all s (AK2 a)) = []
   \<and> current_ak4_segments (scan_step v all s (AK2 a)) = []"
  by (cases "current_ak2 s"; cases "next_ak5_from all (the (current_ak2 s))") simp_all

lemma pending_after_AK2:
  assumes "current_ak2 s' = Some a" and "current_ak3_segments s' = []"
    and "current_ak4_segments s' = []"
  shows "pending v s' rest @ map (validate_loop v) (ak2_loops rest)
           = map (validate_loop v) (ak2_loops (AK2 a # rest))"
  using assms by (cases "first_ak5 rest") (simp_all add: pending_def validate_loop_def)


lemma step_skip:
  assumes "\<not> loop_boundary seg"
  shows "pipeline_state.transaction_validations (scan_step v all s seg)
           = pipeline_state.transaction_validations s"
    and "current_ak2 (scan_step v all s seg) = current_ak2 s"
    and "current_ak3_segments (scan_step v all s seg) = current_ak3_segments s @ ak3s_of [seg]"
    and "current_ak4_segments (scan_step v all s seg) = current_ak4_segments s @ ak4s_of [seg]"
  using assms by (cases seg; simp add: ak3s_of_def ak4s_of_def)+

lemma loop_boundary_cases:
  assumes "loop_boundary seg"
  obtains a where "seg = AK2 a" | k where "seg = AK5 k"
  using assms by (cases seg) auto

lemma no_open_overlap_skip:
  "\<not> loop_boundary seg \<Longrightarrow> no_open_overlap opn (seg # rest) = no_open_overlap opn rest"
  by (cases seg) auto

lemma ak2_loops_skip: "\<not> loop_boundary seg \<Longrightarrow> ak2_loops (seg # rest) = ak2_loops rest"
  by (cases seg) auto

lemma scan_from_closed:
  assumes "no_open_overlap (current_ak2 s \<noteq> None) rest"
  shows "pipeline_state.transaction_validations (foldl (scan_step v all) s rest)
           = pipeline_state.transaction_validations s @ pending v s rest
             @ map (validate_loop v) (ak2_loops rest)"
  using assms
proof (induction rest arbitrary: s)
  case Nil
  then show ?case by (cases "current_ak2 s") (simp_all add: pending_def)
next
  case (Cons seg rest)
  let ?s' = "scan_step v all s seg"
  have unfold: "foldl (scan_step v all) s (seg # rest) = foldl (scan_step v all) ?s' rest"
    by simp
  show ?case
  proof (cases "loop_boundary seg")
    case False
    note st = step_skip [OF False, of v all s]
    from Cons.prems have "no_open_overlap (current_ak2 s \<noteq> None) rest"
      unfolding no_open_overlap_skip [OF False] .
    then have "no_open_overlap (current_ak2 ?s' \<noteq> None) rest"
      unfolding st(2) .
    from Cons.IH [OF this]
    have "pipeline_state.transaction_validations (foldl (scan_step v all) ?s' rest)
           = pipeline_state.transaction_validations ?s' @ pending v ?s' rest
             @ map (validate_loop v) (ak2_loops rest)" .
    moreover have "pending v s (seg # rest) = pending v ?s' rest"
      using False st(2,3,4) by (rule pending_skip)
    ultimately show ?thesis
      unfolding unfold by (simp only: st(1) ak2_loops_skip [OF False])
  next
    case True
    then show ?thesis
    proof (cases rule: loop_boundary_cases)
      case (1 a)
      from Cons.prems have none: "current_ak2 s = None" and rest: "no_open_overlap True rest"
        unfolding 1 by simp_all
      from rest have "no_open_overlap (current_ak2 ?s' \<noteq> None) rest"
        unfolding 1 using step_AK2_open [of v all s a] by (simp del: scan_step.simps)
      note IH = Cons.IH [OF this]
      have tv': "pipeline_state.transaction_validations ?s'
            = pipeline_state.transaction_validations s @ pending v s (seg # rest)"
        unfolding 1 using none by (intro step_AK2_tvs) simp
      have pend': "pending v ?s' rest @ map (validate_loop v) (ak2_loops rest)
            = map (validate_loop v) (ak2_loops (seg # rest))"
        unfolding 1 using step_AK2_open [of v all s a]
        by (intro pending_after_AK2) (simp_all del: scan_step.simps)
      from IH tv' pend' show ?thesis
        unfolding unfold by (simp only: append_assoc)
    next
      case (2 k)
      from Cons.prems have "no_open_overlap (current_ak2 ?s' \<noteq> None) rest"
        unfolding 2 by (simp only: step_AK5_open no_open_overlap.simps) simp
      note IH = Cons.IH [OF this]
      have tv': "pipeline_state.transaction_validations ?s'
            = pipeline_state.transaction_validations s @ pending v s (seg # rest)"
        unfolding 2 by (rule step_AK5_tvs)
      have pend': "pending v ?s' rest = []"
        unfolding 2 pending_def by (simp only: step_AK5_open option.case)
      have loops: "ak2_loops (seg # rest) = ak2_loops rest"
        unfolding 2 by simp
      from IH tv' pend' loops show ?thesis
        unfolding unfold by (simp only: append_assoc append_Nil)
    qed
  qed
qed

lemma scan_from:
  assumes "all = pre @ rest" and "distinct (ak2s_of all)" and "open_ok pre s"
  shows "pipeline_state.transaction_validations (foldl (scan_step v all) s rest)
           = pipeline_state.transaction_validations s @ pending v s rest
             @ map (validate_loop v) (ak2_loops rest)"
  using assms
proof (induction rest arbitrary: pre s)
  case Nil
  then show ?case by (cases "current_ak2 s") (simp_all add: pending_def)
next
  case (Cons seg rest)
  let ?s' = "scan_step v all s seg"
  from Cons.prems(1) have all': "all = (pre @ [seg]) @ rest" by simp
  have unfold: "foldl (scan_step v all) s (seg # rest) = foldl (scan_step v all) ?s' rest"
    by simp
  show ?case
  proof (cases "loop_boundary seg")
    case False
    note st = step_skip [OF False, of v all s]
    from False have "\<And>k. seg \<noteq> AK5 k" by auto
    with Cons.prems(3) st(2) have "open_ok (pre @ [seg]) ?s'"
      by (intro open_ok_snoc [of pre s]) auto
    from Cons.IH [OF all' Cons.prems(2) this]
    have "pipeline_state.transaction_validations (foldl (scan_step v all) ?s' rest)
           = pipeline_state.transaction_validations ?s' @ pending v ?s' rest
             @ map (validate_loop v) (ak2_loops rest)" .
    moreover have "pending v s (seg # rest) = pending v ?s' rest"
      using False st(2,3,4) by (rule pending_skip)
    ultimately show ?thesis
      unfolding unfold by (simp only: st(1) ak2_loops_skip [OF False])
  next
    case True
    then show ?thesis
    proof (cases rule: loop_boundary_cases)
      case (1 a)
      have fresh: "AK2 a \<notin> set pre"
        using Cons.prems(1,2) 1 by (auto simp: ak2s_of_def)
      have "\<exists>p1 p2. pre @ [AK2 a] = p1 @ AK2 a # p2 \<and> AK2 a \<notin> set p1 \<and> first_ak5 p2 = None"
        using fresh by (intro exI [of _ pre] exI [of _ "[]"]) simp
      then have ok': "open_ok (pre @ [seg]) ?s'"
        unfolding open_ok_def 1 using step_AK2_open [of v all s a]
        by (simp del: scan_step.simps)
      note IH = Cons.IH [OF all' Cons.prems(2) ok']
      have look: "next_ak5_from all cur = first_ak5 rest" if "current_ak2 s = Some cur" for cur
      proof -
        from that Cons.prems(3) obtain p1 p2 where p: "pre = p1 @ AK2 cur # p2"
          "AK2 cur \<notin> set p1" "first_ak5 p2 = None"
          by (auto simp: open_ok_def)
        have "all = p1 @ AK2 cur # p2 @ (seg # rest)"
          using Cons.prems(1) p(1) by simp
        then have "next_ak5_from all cur = first_ak5 (seg # rest)"
          using next_ak5_from_split [OF p(2) p(3)] by simp
        then show ?thesis using 1 by simp
      qed
      have tv': "pipeline_state.transaction_validations ?s'
            = pipeline_state.transaction_validations s @ pending v s (seg # rest)"
        unfolding 1 using look by (rule step_AK2_tvs)
      have pend': "pending v ?s' rest @ map (validate_loop v) (ak2_loops rest)
            = map (validate_loop v) (ak2_loops (seg # rest))"
        unfolding 1 using step_AK2_open [of v all s a]
        by (intro pending_after_AK2) (simp_all del: scan_step.simps)
      from IH tv' pend' show ?thesis
        unfolding unfold by (simp only: append_assoc)
    next
      case (2 k)
      have ok': "open_ok (pre @ [seg]) ?s'"
        unfolding open_ok_def 2 by (simp only: step_AK5_open option.case)
      note IH = Cons.IH [OF all' Cons.prems(2) ok']
      have tv': "pipeline_state.transaction_validations ?s'
            = pipeline_state.transaction_validations s @ pending v s (seg # rest)"
        unfolding 2 by (rule step_AK5_tvs)
      have pend': "pending v ?s' rest = []"
        unfolding 2 pending_def by (simp only: step_AK5_open option.case)
      have loops: "ak2_loops (seg # rest) = ak2_loops rest"
        unfolding 2 by simp
      from IH tv' pend' loops show ?thesis
        unfolding unfold by (simp only: append_assoc append_Nil)
    qed
  qed
qed

lemma scan_tvs:
  assumes "distinct (ak2s_of segs)"
  shows "pipeline_state.transaction_validations (scan v segs)
           = map (validate_loop v) (ak2_loops segs)"
proof -
  have "open_ok [] initial_state"
    by (simp add: open_ok_def initial_state_def)
  from scan_from [of segs "[]" segs, OF _ assms this]
  show ?thesis
    by (simp add: scan_def pending_def initial_state_def)
qed


lemma scan_tvs_closed:
  assumes "each_closed segs"
  shows "pipeline_state.transaction_validations (scan v segs)
           = map (validate_loop v) (ak2_loops segs)"
proof -
  have "no_open_overlap (current_ak2 initial_state \<noteq> None) segs"
    using assms by (simp add: each_closed_def initial_state_def)
  from scan_from_closed [OF this, of v segs]
  show ?thesis
    by (simp add: scan_def pending_def initial_state_def)
qed


lemma ak5s_of_skip: "\<not> loop_boundary seg \<Longrightarrow> ak5s_of (seg # rest) = ak5s_of rest"
  by (cases seg) (auto simp: ak5s_of_def)

lemma closed_loops_bound:
  "no_open_overlap opn rest \<Longrightarrow>
   length (ak2_loops rest) + (if opn \<and> first_ak5 rest \<noteq> None then 1 else 0)
     \<le> length (ak5s_of rest)"
proof (induction rest arbitrary: opn)
  case Nil
  then show ?case by (simp add: ak5s_of_def)
next
  case (Cons seg rest)
  show ?case
  proof (cases "loop_boundary seg")
    case False
    from Cons.prems have "no_open_overlap opn rest"
      unfolding no_open_overlap_skip [OF False] .
    from Cons.IH [OF this] show ?thesis
      unfolding ak2_loops_skip [OF False] ak5s_of_skip [OF False]
        first_ak5_not_boundary [OF False] .
  next
    case True
    then show ?thesis
    proof (cases rule: loop_boundary_cases)
      case (1 a)
      with Cons.prems have "\<not> opn" "no_open_overlap True rest" by simp_all
      from Cons.IH [OF this(2)] \<open>\<not> opn\<close> show ?thesis
        unfolding 1 by (cases "first_ak5 rest") (simp_all add: ak5s_of_def)
    next
      case (2 k)
      with Cons.prems have "no_open_overlap False rest" by simp
      from Cons.IH [OF this] show ?thesis
        unfolding 2 by (simp add: ak5s_of_def)
    qed
  qed
qed





lemma run_scan_result:
  "run_validation_pipeline_scan v segs =
     (case (last_isa segs, last_ak1 segs, last_ak9 segs) of
        (Some i, Some a1, Some a9) \<Rightarrow>
          Inr (validate_997 v i a1 a9 (pipeline_state.transaction_validations (scan v segs)))
      | _ \<Rightarrow> Inl (ValueError ''Missing required segments (ISA, AK1, or AK9)''))"
proof -
  have fields: "isa (scan v segs) = last_isa segs" "ak1 (scan v segs) = last_ak1 segs"
    "ak9 (scan v segs) = last_ak9 segs"
    by (simp_all add: scan_def isa_foldl ak1_foldl ak9_foldl initial_state_def
        split: option.splits)
  show ?thesis
    unfolding run_validation_pipeline_scan_def Let_def fields ..
qed


lemma stream_two_loops_distinct: "distinct (ak2s_of stream_two_loops)"
  by code_simp

lemma stream_two_loops_loops: "map (validate_loop validator_example) (ak2_loops stream_two_loops)
   = [validate_transaction_set validator_example ak2_5678 ak5_r [ak3_n1] [ak4_66],
      validate_transaction_set validator_example ak2_5679 ak5_a [] []]"
  by code_simp


text \<open>
  Claim C1, as the code has it.  For a stream whose AK2 segments are pairwise different, or
  in which every AK2 is closed before the next one arrives, the scan finalizes, in stream
  order, exactly the AK2 loops that have an AK5 somewhere after them, each of them once: with
  the first AK5 after the AK2, and with the AK3 and AK4 segments that stand between the AK2
  and the next AK2 or AK5 (\<open>ak2_loops\<close>).  An AK2 with no later AK5 is not finalized.  The
  list is also the one that the result of the pipeline reports.  When every AK2 is closed
  before the next one arrives, there are at most as many finalized loops as AK5 segments;
  otherwise an AK5 closes every AK2 opened since the AK5 before it.
\<close>

theorem scan_finalizes_each_loop:
  "(distinct (ak2s_of segs) \<or> each_closed segs \<longrightarrow>
      pipeline_state.transaction_validations (scan v segs)
        = map (validate_loop v) (ak2_loops segs)
      \<and> (\<forall>r. run_validation_pipeline_scan v segs = Inr r \<longrightarrow>
           FunctionalGroupValidation.transaction_validations (functional_group r)
             = map (validate_loop v) (ak2_loops segs)))
   \<and> (each_closed segs \<longrightarrow>
        length (pipeline_state.transaction_validations (scan v segs)) \<le> length (ak5s_of segs))"
proof (intro conjI impI)
  assume d: "distinct (ak2s_of segs) \<or> each_closed segs"
  then show tvs: "pipeline_state.transaction_validations (scan v segs)
       = map (validate_loop v) (ak2_loops segs)"
    using scan_tvs scan_tvs_closed by blast
  have "FunctionalGroupValidation.transaction_validations (functional_group r)
            = map (validate_loop v) (ak2_loops segs)"
    if "run_validation_pipeline_scan v segs = Inr r" for r
    using that tvs
    by (auto simp: run_scan_result validate_997_def validate_functional_group_def
        ValidationResult_init_def FunctionalGroupValidation_init_def Let_def
        split: option.splits)
  then show "\<forall>r. run_validation_pipeline_scan v segs = Inr r \<longrightarrow>
          FunctionalGroupValidation.transaction_validations (functional_group r)
            = map (validate_loop v) (ak2_loops segs)"
    by blast
next
  assume c: "each_closed segs"
  then have "pipeline_state.transaction_validations (scan v segs)
       = map (validate_loop v) (ak2_loops segs)"
    by (rule scan_tvs_closed)
  moreover from c closed_loops_bound [of False segs]
  have "length (ak2_loops segs) \<le> length (ak5s_of segs)"
    by (simp add: each_closed_def)
  ultimately show "length (pipeline_state.transaction_validations (scan v segs))
      \<le> length (ak5s_of segs)"
    by simp
qed

lemma stream_two_loops_closed: "each_closed stream_two_loops"
  by code_simp

lemma stream_two_loops_ak5s: "ak5s_of stream_two_loops = [ak5_r, ak5_a]"
  by code_simp

theorem scan_finalizes_each_loop_witness:
  "distinct (ak2s_of stream_two_loops)
   \<and> each_closed stream_two_loops
   \<and> pipeline_state.transaction_validations (scan validator_example stream_two_loops)
     = [validate_transaction_set validator_example ak2_5678 ak5_r [ak3_n1] [ak4_66],
        validate_transaction_set validator_example ak2_5679 ak5_a [] []]
   \<and> ak5s_of stream_two_loops = [ak5_r, ak5_a]"
  using scan_finalizes_each_loop [of stream_two_loops validator_example]
    stream_two_loops_distinct stream_two_loops_loops stream_two_loops_closed
    stream_two_loops_ak5s
  by simp

lemma stream_unclosed_facts:
  "map TransactionSetValidation.transaction_control_number
     (pipeline_state.transaction_validations (scan validator_example stream_unclosed))
     = [''5678'', ''5679'']"
  "map TransactionSetValidation.ack_code
     (pipeline_state.transaction_validations (scan validator_example stream_unclosed))
     = [''R'', ''R'']"
  "ak5s_of stream_unclosed = [ak5_r]"
  "ak2s_of stream_unclosed = [ak2_5678, ak2_5679]"
  by code_simp+

text \<open>
  Claim C1, as stated, fails on a stream with two AK2 segments and one AK5 after both: the
  scan finalizes both loops with that AK5, so one AK5 closes two loops and there are more
  finalized loops than AK5 segments.
\<close>

theorem scan_unclosed_loops_counterexample:
  "ak2s_of stream_unclosed = [ak2_5678, ak2_5679]
   \<and> ak5s_of stream_unclosed = [ak5_r]
   \<and> map TransactionSetValidation.transaction_control_number
       (pipeline_state.transaction_validations (scan validator_example stream_unclosed))
     = [''5678'', ''5679'']
   \<and> map TransactionSetValidation.ack_code
       (pipeline_state.transaction_validations (scan validator_example stream_unclosed))
     = [''R'', ''R'']
   \<and> \<not> length (pipeline_state.transaction_validations (scan validator_example stream_unclosed))
         \<le> length (ak5s_of stream_unclosed)"
proof -
  have "length (map TransactionSetValidation.ack_code
     (pipeline_state.transaction_validations (scan validator_example stream_unclosed))) = 2"
    by (simp only: stream_unclosed_facts) simp
  then have "length (pipeline_state.transaction_validations
      (scan validator_example stream_unclosed)) = 2"
    by simp
  with stream_unclosed_facts show ?thesis by simp
qed













section \<open>Reconciliation models (\<open>src/models/reconciliation.py\<close>)\<close>

datatype ReconciliationStatus = MATCHED | MISSING_ACK | UNEXPECTED_ACK | CONTROL_NUMBER_MISMATCH

record OutboundTransaction =
  transaction_set_id :: string
  transaction_control_number :: string
  group_control_number :: string
  functional_id_code :: string

record OutboundFunctionalGroup =
  functional_id_code :: string
  group_control_number :: string
  transactions :: "OutboundTransaction list"

record TransactionReconciliation =
  outbound_transaction :: "OutboundTransaction option"
  acknowledgment :: "TransactionSetValidation option"
  status :: ReconciliationStatus
  mismatch_reason :: "string option"

definition TransactionReconciliation_init ::
  "OutboundTransaction option \<Rightarrow> TransactionSetValidation option \<Rightarrow> ReconciliationStatus \<Rightarrow>
   string option \<Rightarrow> TransactionReconciliation" where
  "TransactionReconciliation_init ob ack st reason =
     \<lparr>outbound_transaction = ob,
      acknowledgment = ack,
      TransactionReconciliation.status = st,
      mismatch_reason = map_option strip reason\<rparr>"

definition is_matched :: "TransactionReconciliation \<Rightarrow> bool" where
  "is_matched tr \<longleftrightarrow> TransactionReconciliation.status tr = MATCHED"


record FunctionalGroupReconciliation =
  outbound_group :: "OutboundFunctionalGroup option"
  group_control_number :: string
  functional_id_code :: string
  transaction_reconciliations :: "TransactionReconciliation list"

definition FunctionalGroupReconciliation_init ::
  "OutboundFunctionalGroup option \<Rightarrow> string \<Rightarrow> string \<Rightarrow> TransactionReconciliation list \<Rightarrow>
   FunctionalGroupReconciliation" where
  "FunctionalGroupReconciliation_init og gcn fid trs =
     \<lparr>outbound_group = og,
      FunctionalGroupReconciliation.group_control_number = strip gcn,
      functional_id_code = strip fid,
      transaction_reconciliations = trs\<rparr>"

text \<open>The counting properties: \<open>sum(1 for tr in ... if ...)\<close> and \<open>len(...)\<close>.\<close>

definition matched_count :: "FunctionalGroupReconciliation \<Rightarrow> int" where
  "matched_count fgr = (\<Sum>tr \<leftarrow> filter is_matched (transaction_reconciliations fgr). 1)"

definition missing_ack_count :: "FunctionalGroupReconciliation \<Rightarrow> int" where
  "missing_ack_count fgr =
     (\<Sum>tr \<leftarrow> filter (\<lambda>tr. TransactionReconciliation.status tr = MISSING_ACK)
                    (transaction_reconciliations fgr). 1)"

definition unexpected_ack_count :: "FunctionalGroupReconciliation \<Rightarrow> int" where
  "unexpected_ack_count fgr =
     (\<Sum>tr \<leftarrow> filter (\<lambda>tr. TransactionReconciliation.status tr = UNEXPECTED_ACK)
                    (transaction_reconciliations fgr). 1)"

definition total_count :: "FunctionalGroupReconciliation \<Rightarrow> int" where
  "total_count fgr = int (length (transaction_reconciliations fgr))"

definition is_fully_reconciled :: "FunctionalGroupReconciliation \<Rightarrow> bool" where
  "is_fully_reconciled fgr \<longleftrightarrow> total_count fgr > 0 \<and> matched_count fgr = total_count fgr"

section \<open>Reconciliation (\<open>src/reconciliation/reconciler.py\<close>)\<close>

text \<open>
  A dictionary built by a comprehension is an association list: a key keeps the place of
  its first insertion and the value of its last (\<open>AList.update\<close>).  \<open>dict.get\<close> is
  \<open>map_of\<close>, \<open>dict.keys\<close> is \<open>map fst\<close>.
\<close>

definition dict_by :: "('a \<Rightarrow> 'k) \<Rightarrow> 'a list \<Rightarrow> ('k \<times> 'a) list" where
  "dict_by key xs = fold (\<lambda>x d. AList.update (key x) x d) xs []"

definition reconcile_transaction ::
  "OutboundTransaction option \<Rightarrow> TransactionSetValidation option \<Rightarrow>
   error + TransactionReconciliation" where
  "reconcile_transaction outbound_tx ack_tx =
     (case (outbound_tx, ack_tx) of
        (Some ob, Some ack) \<Rightarrow>
          if OutboundTransaction.transaction_set_id ob
               \<noteq> TransactionSetValidation.transaction_set_id ack
          then Inr (TransactionReconciliation_init (Some ob) (Some ack) CONTROL_NUMBER_MISMATCH
                 (Some (''Transaction set ID mismatch: expected ''
                        @ OutboundTransaction.transaction_set_id ob @ '', got ''
                        @ TransactionSetValidation.transaction_set_id ack)))
          else Inr (TransactionReconciliation_init (Some ob) (Some ack) MATCHED None)
      | (Some ob, None) \<Rightarrow>
          Inr (TransactionReconciliation_init (Some ob) None MISSING_ACK
                 (Some (''No acknowledgment received for transaction ''
                        @ OutboundTransaction.transaction_control_number ob)))
      | (None, Some ack) \<Rightarrow>
          Inr (TransactionReconciliation_init None (Some ack) UNEXPECTED_ACK
                 (Some (''Unexpected acknowledgment for transaction ''
                        @ TransactionSetValidation.transaction_control_number ack)))
      | (None, None) \<Rightarrow> Inl (ValueError ''Both outbound_tx and ack_tx are None''))"

text \<open>
  The loop over the sorted control numbers; an exception of \<open>reconcile_transaction\<close> leaves
  the loop.
\<close>

fun reconcile_each ::
  "(string \<times> OutboundTransaction) list \<Rightarrow> (string \<times> TransactionSetValidation) list \<Rightarrow>
   string list \<Rightarrow> error + TransactionReconciliation list" where
  "reconcile_each outbound_map ack_map [] = Inr []"
| "reconcile_each outbound_map ack_map (cn # rest) =
     (case reconcile_transaction (map_of outbound_map cn) (map_of ack_map cn) of
        Inl e \<Rightarrow> Inl e
      | Inr reconciliation \<Rightarrow>
          (case reconcile_each outbound_map ack_map rest of
             Inl e \<Rightarrow> Inl e
           | Inr others \<Rightarrow> Inr (reconciliation # others)))"

definition reconcile_functional_group ::
  "FunctionalGroupValidation \<Rightarrow> OutboundFunctionalGroup \<Rightarrow>
   error + FunctionalGroupReconciliation" where
  "reconcile_functional_group fg_validation outbound_grp =
     (let outbound_map =
            dict_by OutboundTransaction.transaction_control_number (transactions outbound_grp);
          ack_map =
            dict_by TransactionSetValidation.transaction_control_number
              (FunctionalGroupValidation.transaction_validations fg_validation);
          all_control_numbers = set (map fst outbound_map) \<union> set (map fst ack_map)
      in case reconcile_each outbound_map ack_map (sorted_list_of_set all_control_numbers) of
           Inl e \<Rightarrow> Inl e
         | Inr trs \<Rightarrow>
             Inr (FunctionalGroupReconciliation_init (Some outbound_grp)
                    (FunctionalGroupValidation.group_control_number fg_validation)
                    (FunctionalGroupValidation.functional_id_code fg_validation)
                    trs))"




text \<open>Two inputs used in the examples below.\<close>

definition outbound_example :: OutboundFunctionalGroup where
  "outbound_example =
     \<lparr>OutboundFunctionalGroup.functional_id_code = ''PO'',
      group_control_number = ''1234'',
      transactions =
        [\<lparr>OutboundTransaction.transaction_set_id = ''850'', transaction_control_number = ''5680'',
          group_control_number = ''1234'', functional_id_code = ''PO''\<rparr>,
         \<lparr>OutboundTransaction.transaction_set_id = ''850'', transaction_control_number = ''5678'',
          group_control_number = ''1234'', functional_id_code = ''PO''\<rparr>,
         \<lparr>OutboundTransaction.transaction_set_id = ''850'', transaction_control_number = ''5679'',
          group_control_number = ''1234'', functional_id_code = ''PO''\<rparr>]\<rparr>"



section \<open>Reconciliation: results\<close>

lemma sum_list_ones: "(\<Sum>x\<leftarrow>xs. (1::int)) = int (length xs)"
  by (induction xs) auto

lemma matched_count_length:
  "matched_count fgr = int (length (filter is_matched (transaction_reconciliations fgr)))"
  by (simp add: matched_count_def sum_list_ones)

lemma length_filter_full: "length (filter P xs) = length xs \<longleftrightarrow> (\<forall>x\<in>set xs. P x)"
proof (induction xs)
  case Nil
  then show ?case by simp
next
  case (Cons x xs)
  have "length (filter P xs) \<le> length xs" by simp
  then have "length (filter P xs) \<noteq> Suc (length xs)" by linarith
  with Cons show ?case by auto
qed


lemma is_fully_reconciled_all_matched:
  "is_fully_reconciled fgr \<longleftrightarrow>
     transaction_reconciliations fgr \<noteq> []
     \<and> (\<forall>tr\<in>set (transaction_reconciliations fgr). TransactionReconciliation.status tr = MATCHED)"
  by (auto simp: is_fully_reconciled_def total_count_def matched_count_length
      length_filter_full is_matched_def)





lemma find_rev_Some_iff: "find P (rev xs) \<noteq> None \<longleftrightarrow> (\<exists>x\<in>set xs. P x)"
  by (auto simp: find_None_iff)






lemma reconcile_functional_group_empty:
  assumes "transactions og = []" and "FunctionalGroupValidation.transaction_validations fgv = []"
  shows "reconcile_functional_group fgv og =
           Inr (FunctionalGroupReconciliation_init (Some og)
                  (FunctionalGroupValidation.group_control_number fgv)
                  (FunctionalGroupValidation.functional_id_code fgv) [])"
  using assms by (simp add: reconcile_functional_group_def dict_by_def)






text \<open>
  Claim C6.  \<open>is_fully_reconciled\<close> holds exactly when \<open>total_count\<close> is positive and
  \<open>matched_count\<close> equals it, that is, when there is at least one transaction
  reconciliation and all of them are MATCHED.  It is false for zero reconciliations, and
  reconciling an empty outbound list with an empty acknowledgment list gives a group that is
  not fully reconciled.
\<close>

theorem is_fully_reconciled_iff:
  "(is_fully_reconciled fgr \<longleftrightarrow> total_count fgr > 0 \<and> matched_count fgr = total_count fgr)
   \<and> (is_fully_reconciled fgr \<longleftrightarrow>
        transaction_reconciliations fgr \<noteq> []
        \<and> list_all (\<lambda>tr. TransactionReconciliation.status tr = MATCHED)
            (transaction_reconciliations fgr))
   \<and> (total_count fgr = 0 \<longrightarrow> \<not> is_fully_reconciled fgr)
   \<and> (transactions og = [] \<and> FunctionalGroupValidation.transaction_validations fgv = [] \<longrightarrow>
        (\<exists>r. reconcile_functional_group fgv og = Inr r \<and> total_count r = 0
             \<and> \<not> is_fully_reconciled r))"
proof -
  have "is_fully_reconciled fgr \<longleftrightarrow>
        transaction_reconciliations fgr \<noteq> []
        \<and> list_all (\<lambda>tr. TransactionReconciliation.status tr = MATCHED)
            (transaction_reconciliations fgr)"
    by (simp add: is_fully_reconciled_all_matched list_all_iff)
  moreover have "total_count fgr = 0 \<longrightarrow> \<not> is_fully_reconciled fgr"
    by (simp add: is_fully_reconciled_def)
  moreover have "transactions og = [] \<and> FunctionalGroupValidation.transaction_validations fgv = [] \<longrightarrow>
        (\<exists>r. reconcile_functional_group fgv og = Inr r \<and> total_count r = 0
             \<and> \<not> is_fully_reconciled r)"
    by (simp add: reconcile_functional_group_empty is_fully_reconciled_def total_count_def
        FunctionalGroupReconciliation_init_def)
  ultimately show ?thesis
    by (simp add: is_fully_reconciled_def)
qed

theorem is_fully_reconciled_iff_witness:
  "is_fully_reconciled
     (FunctionalGroupReconciliation_init None ''1234'' ''PO''
        [TransactionReconciliation_init (Some (hd (transactions outbound_example))) None
           MATCHED None])
   \<and> \<not> is_fully_reconciled
       (FunctionalGroupReconciliation_init None ''1234'' ''PO''
          [TransactionReconciliation_init (Some (hd (transactions outbound_example))) None
             MATCHED None,
           TransactionReconciliation_init (Some (hd (transactions outbound_example))) None
             MISSING_ACK None])
   \<and> \<not> is_fully_reconciled (FunctionalGroupReconciliation_init None ''1234'' ''PO'' [])
   \<and> (\<exists>r. reconcile_functional_group
             (FunctionalGroupValidation_init ''PO'' ''1234'' FunctionalGroupStatus.ACCEPTED ''A''
                0 0 0 [] [])
             (outbound_example\<lparr>transactions := []\<rparr>) = Inr r
           \<and> total_count r = 0 \<and> \<not> is_fully_reconciled r)"
  using
    is_fully_reconciled_iff [of "FunctionalGroupReconciliation_init None ''1234'' ''PO''
        [TransactionReconciliation_init (Some (hd (transactions outbound_example))) None
           MATCHED None]"
        "outbound_example\<lparr>transactions := []\<rparr>"
        "FunctionalGroupValidation_init ''PO'' ''1234'' FunctionalGroupStatus.ACCEPTED ''A''
                0 0 0 [] []"]
    is_fully_reconciled_iff [of "FunctionalGroupReconciliation_init None ''1234'' ''PO''
          [TransactionReconciliation_init (Some (hd (transactions outbound_example))) None
             MATCHED None,
           TransactionReconciliation_init (Some (hd (transactions outbound_example))) None
             MISSING_ACK None]"
        "outbound_example\<lparr>transactions := []\<rparr>"
        "FunctionalGroupValidation_init ''PO'' ''1234'' FunctionalGroupStatus.ACCEPTED ''A''
                0 0 0 [] []"]
    is_fully_reconciled_iff [of "FunctionalGroupReconciliation_init None ''1234'' ''PO'' []"
        "outbound_example\<lparr>transactions := []\<rparr>"
        "FunctionalGroupValidation_init ''PO'' ''1234'' FunctionalGroupStatus.ACCEPTED ''A''
                0 0 0 [] []"]
  by (simp add: FunctionalGroupReconciliation_init_def TransactionReconciliation_init_def
      FunctionalGroupValidation_init_def total_count_def matched_count_def is_matched_def)

end
